theory Spec2Isabelle
  imports Main "HOL-Library.Sublist"
begin

section \<open>Strings and values\<close>

text \<open>
  A Python \<open>str\<close> is modelled as a HOL \<open>string\<close> whose characters stand for the code
  points U+0000 .. U+00FF. The character classes below are the ones CPython uses on that
  range: \<open>str.split()\<close>/\<open>str.strip()\<close>/\<open>str.isspace\<close> whitespace, the regular
  expression class \<open>\d\<close> (decimal digits, also what \<open>int()\<close> accepts), and
  \<open>str.isdigit\<close> (decimal digits and the superscripts U+00B2, U+00B3, U+00B9).
  A value that reaches the normalizer is \<open>None\<close> or a string; a number reaches it
  through \<open>str(value)\<close>, as the string it prints as (a float NaN as \<open>nan\<close>).
\<close>

datatype py_error = ValueError | IndexError

datatype pyval = PyNone | PyStr string

definition is_space :: "char \<Rightarrow> bool" where
  "is_space c =
     (let n = (of_char c :: nat)
      in (9 \<le> n \<and> n \<le> 13) \<or> (28 \<le> n \<and> n \<le> 32) \<or> n = 133 \<or> n = 160)"

definition is_decimal :: "char \<Rightarrow> bool" where
  "is_decimal c = (let n = (of_char c :: nat) in 48 \<le> n \<and> n \<le> 57)"

definition isdigit_char :: "char \<Rightarrow> bool" where
  "isdigit_char c =
     (let n = (of_char c :: nat) in (48 \<le> n \<and> n \<le> 57) \<or> n = 178 \<or> n = 179 \<or> n = 185)"

definition str_isdigit :: "string \<Rightarrow> bool" where
  "str_isdigit s = (s \<noteq> [] \<and> list_all isdigit_char s)"

definition lower_char :: "char \<Rightarrow> char" where
  "lower_char c =
     (let n = (of_char c :: nat)
      in if (65 \<le> n \<and> n \<le> 90) \<or> (192 \<le> n \<and> n \<le> 222 \<and> n \<noteq> 215)
         then char_of (n + 32) else c)"

definition str_lower :: "string \<Rightarrow> string" where
  "str_lower s = map lower_char s"

definition str_strip :: "string \<Rightarrow> string" where
  "str_strip s = rev (dropWhile is_space (rev (dropWhile is_space s)))"

text \<open>\<open>s.split()\<close>: the maximal runs of non-whitespace characters, in order.\<close>

function split_ws :: "string \<Rightarrow> string list" where
  "split_ws [] = []"
| "split_ws (c # cs) =
     (if is_space c then split_ws cs
      else (c # takeWhile (\<lambda>x. \<not> is_space x) cs) # split_ws (dropWhile (\<lambda>x. \<not> is_space x) cs))"
  by pat_completeness auto
termination
  by (relation "measure length") (auto simp: length_dropWhile_le less_Suc_eq_le)

text \<open>\<open>" ".join(words)\<close>.\<close>

fun join_space :: "string list \<Rightarrow> string" where
  "join_space [] = []"
| "join_space [w] = w"
| "join_space (w # v # ws) = w @ CHR '' '' # join_space (v # ws)"

text \<open>The digits of a string: \<open>re.sub(r"\D+", "", s)\<close> deletes every non-decimal character.\<close>

definition strip_nondigits :: "string \<Rightarrow> string" where
  "strip_nondigits s = filter is_decimal s"

section \<open>base.py: normalization\<close>

definition normalize_text :: "pyval \<Rightarrow> string" where
  "normalize_text v =
     (case v of
        PyNone \<Rightarrow> []
      | PyStr s \<Rightarrow>
          if str_strip s = [] \<or> str_lower s = ''nan'' then []
          else str_strip (join_space (split_ws s)))"

definition normalize_digits :: "pyval \<Rightarrow> string" where
  "normalize_digits v =
     (let s = normalize_text v in if s = [] then [] else strip_nondigits s)"

section \<open>ind\_aadhaar.py: the Verhoeff checksum\<close>

definition d_tab :: "nat list list" where
  "d_tab =
    [[0,1,2,3,4,5,6,7,8,9],
     [1,2,3,4,0,6,7,8,9,5],
     [2,3,4,0,1,7,8,9,5,6],
     [3,4,0,1,2,8,9,5,6,7],
     [4,0,1,2,3,9,5,6,7,8],
     [5,9,8,7,6,0,4,3,2,1],
     [6,5,9,8,7,1,0,4,3,2],
     [7,6,5,9,8,2,1,0,4,3],
     [8,7,6,5,9,3,2,1,0,4],
     [9,8,7,6,5,4,3,2,1,0]]"

definition p_tab :: "nat list list" where
  "p_tab =
    [[0,1,2,3,4,5,6,7,8,9],
     [1,5,7,6,2,8,3,0,9,4],
     [5,8,0,3,7,9,6,1,4,2],
     [8,9,1,6,0,4,3,5,2,7],
     [9,4,5,3,1,2,6,8,7,0],
     [4,2,8,6,5,7,3,9,0,1],
     [2,7,9,3,8,0,6,4,1,5],
     [7,0,4,6,9,1,3,2,5,8]]"

definition inv_tab :: "nat list" where
  "inv_tab = [0,4,3,2,1,5,6,7,8,9]"

text \<open>
  \<open>int(ch)\<close> on a one-character string: the digit's value, or \<open>ValueError\<close>.
  \<open>list(map(int, reversed(s)))\<close> raises at the first character that is no digit.
\<close>

definition int_of_char :: "char \<Rightarrow> py_error + nat" where
  "int_of_char c = (if is_decimal c then Inr (of_char c - 48) else Inl ValueError)"

fun ints_of :: "string \<Rightarrow> py_error + nat list" where
  "ints_of [] = Inr []"
| "ints_of (c # cs) =
     (case int_of_char c of
        Inl e \<Rightarrow> Inl e
      | Inr n \<Rightarrow> (case ints_of cs of Inl e \<Rightarrow> Inl e | Inr ns \<Rightarrow> Inr (n # ns)))"

text \<open>\<open>str(n)\<close> for a natural number: its decimal digits.\<close>

fun str_nat :: "nat \<Rightarrow> string" where
  "str_nat n =
     (if n < 10 then [char_of (48 + n)]
      else str_nat (n div 10) @ [char_of (48 + n mod 10)])"

text \<open>
  The two loops over \<open>enumerate(rev)\<close>; the arguments are the index \<open>i\<close>, the accumulator
  \<open>c\<close> and the items still to be read. The table reads \<open>_d[c][_p[..][item]]\<close> are in
  range on every path (lemmas \<open>d_closed\<close>, \<open>p_closed\<close>, \<open>ints_of_range\<close> below), so
  no \<open>IndexError\<close> branch is reachable.
\<close>

fun check_loop :: "nat \<Rightarrow> nat \<Rightarrow> nat list \<Rightarrow> nat" where
  "check_loop i c [] = c"
| "check_loop i c (item # rest) =
     check_loop (i + 1) (d_tab ! c ! (p_tab ! ((i + 1) mod 8) ! item)) rest"

fun validate_loop :: "nat \<Rightarrow> nat \<Rightarrow> nat list \<Rightarrow> nat" where
  "validate_loop i c [] = c"
| "validate_loop i c (item # rest) =
     validate_loop (i + 1) (d_tab ! c ! (p_tab ! (i mod 8) ! item)) rest"

definition verhoeff_check_digit :: "string \<Rightarrow> py_error + string" where
  "verhoeff_check_digit number_without_check =
     (case ints_of (rev number_without_check) of
        Inl e \<Rightarrow> Inl e
      | Inr items \<Rightarrow> Inr (str_nat (inv_tab ! check_loop 0 0 items)))"

definition verhoeff_validate :: "string \<Rightarrow> py_error + bool" where
  "verhoeff_validate number_with_check =
     (case ints_of (rev number_with_check) of
        Inl e \<Rightarrow> Inl e
      | Inr items \<Rightarrow> Inr (validate_loop 0 0 items = 0))"

section \<open>ind\_aadhaar.py: masking and validation of one value\<close>

text \<open>
  \<open>digits[-4:] if len(digits) >= 4 else digits\<close>, and the format \<open>{last4:>4}\<close>, which
  right-aligns in a field of width 4 (spaces are added on the left).
\<close>

definition last4_of :: "string \<Rightarrow> string" where
  "last4_of ds = (if 4 \<le> length ds then drop (length ds - 4) ds else ds)"

definition rjust :: "nat \<Rightarrow> string \<Rightarrow> string" where
  "rjust w s = replicate (w - length s) CHR '' '' @ s"

definition mask_aadhaar :: "pyval \<Rightarrow> string" where
  "mask_aadhaar a12 =
     (let digits = normalize_digits a12
      in if digits = [] then []
         else (let last4 = last4_of digits in ''XXXX-XXXX-'' @ rjust 4 last4))"

record aadhaar_out =
  aadhaar :: string
  valid :: bool
  reason :: string

definition validate_single :: "pyval \<Rightarrow> py_error + aadhaar_out" where
  "validate_single aadhaar_like =
     (let digits = normalize_digits aadhaar_like;
          out = \<lparr>aadhaar = digits, valid = False, reason = []\<rparr>
      in if digits = [] then Inr (out\<lparr>reason := ''MISSING''\<rparr>)
         else if \<not> str_isdigit digits then Inr (out\<lparr>reason := ''NON_NUMERIC''\<rparr>)
         else if length digits \<noteq> 12 then Inr (out\<lparr>reason := ''LENGTH_NEQ_12''\<rparr>)
         else (case verhoeff_validate digits of
                 Inl e \<Rightarrow> Inl e
               | Inr ok \<Rightarrow>
                   if \<not> ok then Inr (out\<lparr>reason := ''CHECKSUM_FAIL''\<rparr>)
                   else Inr (out\<lparr>valid := True\<rparr>)))"

definition category_aadhaar :: "string \<Rightarrow> string" where
  "category_aadhaar r =
     (if r = [] then ''VALID''
      else if r \<in> set [''MISSING'', ''NON_NUMERIC'', ''LENGTH_NEQ_12'', ''CHECKSUM_FAIL''] then r
      else ''INVALID'')"

section \<open>base.py: sequential runs\<close>

text \<open>
  For the run detector a Python \<open>str\<close> is modelled at full width, as the list of its code
  points, because its two tests for a digit differ beyond the ASCII range: the class \<open>\d\<close>
  of \<open>re\<close> keeps the decimal digits of every script, while the loop accepts a character
  only when \<open>ord(c) - 48\<close> lies between 0 and 9. \<open>code_points\<close> gives the code points of
  a string written with characters up to U+00FF.
\<close>

type_synonym ustring = "nat list"

definition code_points :: "string \<Rightarrow> ustring" where
  "code_points s = map of_char s"

text \<open>
  The class \<open>\d\<close> belongs to the Unicode database of the running Python, not to this
  repository, so \<open>has_sequential_digits\<close> takes it as its first argument. \<open>unicode_nd\<close> is
  that class for Unicode 14.0.0 (the database of CPython 3.11): the code points of
  general category Nd, in ranges.
\<close>

definition unicode_nd_ranges :: "(nat \<times> nat) list" where
  "unicode_nd_ranges =
     [(48, 57), (1632, 1641), (1776, 1785), (1984, 1993),
      (2406, 2415), (2534, 2543), (2662, 2671), (2790, 2799),
      (2918, 2927), (3046, 3055), (3174, 3183), (3302, 3311),
      (3430, 3439), (3558, 3567), (3664, 3673), (3792, 3801),
      (3872, 3881), (4160, 4169), (4240, 4249), (6112, 6121),
      (6160, 6169), (6470, 6479), (6608, 6617), (6784, 6793),
      (6800, 6809), (6992, 7001), (7088, 7097), (7232, 7241),
      (7248, 7257), (42528, 42537), (43216, 43225), (43264, 43273),
      (43472, 43481), (43504, 43513), (43600, 43609), (44016, 44025),
      (65296, 65305), (66720, 66729), (68912, 68921), (69734, 69743),
      (69872, 69881), (69942, 69951), (70096, 70105), (70384, 70393),
      (70736, 70745), (70864, 70873), (71248, 71257), (71360, 71369),
      (71472, 71481), (71904, 71913), (72016, 72025), (72784, 72793),
      (73040, 73049), (73120, 73129), (92768, 92777), (92864, 92873),
      (93008, 93017), (120782, 120831), (123200, 123209), (123632, 123641),
      (125264, 125273), (130032, 130041)]"

definition unicode_nd :: "nat \<Rightarrow> bool" where
  "unicode_nd c = list_ex (\<lambda>(lo, hi). lo \<le> c \<and> c \<le> hi) unicode_nd_ranges"

text \<open>\<open>ord(c) - 48\<close>, and the characters for which it lies between 0 and 9.\<close>

definition digit_val :: "nat \<Rightarrow> int" where
  "digit_val c = int c - 48"

definition ascii_digit :: "nat \<Rightarrow> bool" where
  "ascii_digit c = (48 \<le> c \<and> c \<le> 57)"

text \<open>
  The loop of \<open>_has_sequential_run_digits\<close> from index 1 on: \<open>prev_c\<close> is \<open>seq[i - 1]\<close>,
  the head of the last argument is \<open>seq[i]\<close>.
\<close>

fun seq_loop :: "int \<Rightarrow> nat \<Rightarrow> int \<Rightarrow> int \<Rightarrow> ustring \<Rightarrow> bool" where
  "seq_loop min_run prev_c run_up run_down [] = False"
| "seq_loop min_run prev_c run_up run_down (c # rest) =
     (let cur = digit_val c; prev = digit_val prev_c
      in if 0 \<le> cur \<and> cur \<le> 9 \<and> 0 \<le> prev \<and> prev \<le> 9 then
           (let (ru, rd) =
                  (if cur = prev + 1 then (run_up + 1, 1)
                   else if cur = prev - 1 then (1, run_down + 1)
                   else (1, 1))
            in if min_run \<le> ru \<or> min_run \<le> rd then True
               else seq_loop min_run c ru rd rest)
         else seq_loop min_run c 1 1 rest)"

definition has_sequential_run_digits :: "ustring \<Rightarrow> int \<Rightarrow> bool" where
  "has_sequential_run_digits seq min_run =
     (if int (length seq) < min_run then False
      else (case seq of [] \<Rightarrow> False | c0 # rest \<Rightarrow> seq_loop min_run c0 1 1 rest))"

text \<open>
  \<open>re.sub(r"\D+", "", s or "")\<close> deletes every character outside the class \<open>\d\<close>; \<open>nd\<close>
  is that class. \<open>None\<close> is read as the empty string, here the list \<open>[]\<close>.
\<close>

definition has_sequential_digits :: "(nat \<Rightarrow> bool) \<Rightarrow> ustring \<Rightarrow> int \<Rightarrow> bool" where
  "has_sequential_digits nd s min_run =
     (let digits = filter nd s in has_sequential_run_digits digits min_run)"

text \<open>
  The specification's wording, for comparison with the code: a run is a nonempty
  contiguous stretch of the digits 0 to 9 whose values go up by one at each step, or down
  by one at each step; \<open>spec_has_run s m\<close> says that \<open>s\<close> contains a run of length at
  least \<open>m\<close>. No other character can lie inside a run.
\<close>

definition stepping :: "int \<Rightarrow> ustring \<Rightarrow> bool" where
  "stepping step r =
     (r \<noteq> [] \<and> list_all ascii_digit r
      \<and> successively (\<lambda>a b. digit_val b = digit_val a + step) r)"

definition spec_has_run :: "ustring \<Rightarrow> int \<Rightarrow> bool" where
  "spec_has_run s min_run =
     list_ex (\<lambda>r. min_run \<le> int (length r) \<and> (stepping 1 r \<or> stepping (- 1) r)) (sublists s)"

section \<open>phone.py\<close>

text \<open>
  \<open>E164_RE.match(s)\<close> for \<open>^\+(\d{1,3})(\d{3})(\d{3})(\d+)$\<close>: a plus sign and at least
  eight decimal digits; \<open>$\<close> also matches before one final newline. The first group is
  greedy: it takes three digits when at least seven remain, otherwise two, otherwise one.
\<close>

definition e164_match :: "string \<Rightarrow> (string \<times> string \<times> string \<times> string) option" where
  "e164_match s =
     (case s of
        [] \<Rightarrow> None
      | c # t \<Rightarrow>
          if c \<noteq> CHR ''+'' then None
          else (let body = (if t \<noteq> [] \<and> last t = CHR 0x0A then butlast t else t);
                    n = length body
                in if list_all is_decimal body \<and> 8 \<le> n
                   then (let k = min 3 (n - 7)
                         in Some (take k body, take 3 (drop k body),
                                  take 3 (drop (k + 3) body), drop (k + 6) body))
                   else None))"

definition startswith_plus :: "string \<Rightarrow> bool" where
  "startswith_plus s = (case s of [] \<Rightarrow> False | c # _ \<Rightarrow> c = CHR ''+'')"

definition mask_e164 :: "pyval \<Rightarrow> string" where
  "mask_e164 v =
     (case v of
        PyNone \<Rightarrow> []
      | PyStr e164 \<Rightarrow>
          if e164 = [] \<or> \<not> startswith_plus e164 then []
          else (case e164_match e164 of
                  Some (cc, a, b, rest) \<Rightarrow> ''+'' @ cc @ ''-XXX-XXX-'' @ last4_of rest
                | None \<Rightarrow>
                    (let cc = (if startswith_plus e164
                               then (if str_isdigit (take 3 (drop 1 e164))
                                     then take 3 (drop 1 e164) else [])
                               else []);
                         digits = strip_nondigits e164;
                         last4 = last4_of digits
                     in if cc \<noteq> [] then ''+'' @ cc @ ''-****-****-'' @ last4
                        else ''***-***-'' @ last4)))"

text \<open>
  The \<open>phonenumbers\<close> library is an external collaborator; its functions are parameters.
  \<open>lib_parse\<close> returns \<open>None\<close> where the library raises \<open>NumberParseException\<close>;
  \<open>lib_number_type\<close> returns the library's numeric \<open>PhoneNumberType\<close> (1 is \<open>MOBILE\<close>,
  2 is \<open>FIXED_LINE_OR_MOBILE\<close>); \<open>lib_region_code\<close> returns \<open>None\<close> for Python's
  \<open>None\<close>. \<open>lib_upper\<close> is \<open>str.upper\<close>, whose results leave the Latin-1 range.
\<close>

record 'n phonelib =
  lib_parse :: "string \<Rightarrow> string \<Rightarrow> 'n option"
  lib_is_possible_number :: "'n \<Rightarrow> bool"
  lib_is_valid_number :: "'n \<Rightarrow> bool"
  lib_number_type :: "'n \<Rightarrow> nat"
  lib_type_to_string :: "nat \<Rightarrow> string"
  lib_format_e164 :: "'n \<Rightarrow> string"
  lib_region_code :: "'n \<Rightarrow> string option"
  lib_upper :: "string \<Rightarrow> string"

record phone_out =
  raw :: string
  e164 :: string
  phone_valid :: bool
  phone_reason :: string
  region :: string
  phone_type :: string

definition py_or :: "string \<Rightarrow> string \<Rightarrow> string" where
  "py_or a b = (if a \<noteq> [] then a else b)"

definition validate_single_phone :: "'n phonelib \<Rightarrow> pyval \<Rightarrow> string \<Rightarrow> phone_out" where
  "validate_single_phone lib raw_value default_region =
     (let s = normalize_text raw_value;
          out = \<lparr>raw = s, e164 = [], phone_valid = False, phone_reason = [],
                 region = [], phone_type = []\<rparr>
      in if s = [] then out\<lparr>phone_reason := ''MISSING''\<rparr>
         else (case lib_parse lib s (py_or default_region ''IN'') of
                 None \<Rightarrow> out\<lparr>phone_reason := ''PARSE_FAIL''\<rparr>
               | Some num \<Rightarrow>
                   if \<not> lib_is_possible_number lib num then out\<lparr>phone_reason := ''NOT_VALID''\<rparr>
                   else if \<not> lib_is_valid_number lib num then out\<lparr>phone_reason := ''NOT_VALID''\<rparr>
                   else (let ntype = lib_number_type lib num;
                             out1 = out\<lparr>phone_type := lib_type_to_string lib ntype\<rparr>
                         in if ntype \<noteq> 1 \<and> ntype \<noteq> 2
                            then out1\<lparr>phone_reason := ''NOT_MOBILE_TYPE''\<rparr>
                            else out1\<lparr>e164 := lib_format_e164 lib num,
                                      region := py_or (case lib_region_code lib num of
                                                         None \<Rightarrow> [] | Some r \<Rightarrow> r)
                                                      (py_or default_region []),
                                      phone_valid := True\<rparr>)))"

section \<open>The series validators\<close>

fun map_result :: "('a \<Rightarrow> py_error + 'b) \<Rightarrow> 'a list \<Rightarrow> py_error + 'b list" where
  "map_result f [] = Inr []"
| "map_result f (x # xs) =
     (case f x of
        Inl e \<Rightarrow> Inl e
      | Inr y \<Rightarrow> (case map_result f xs of Inl e \<Rightarrow> Inl e | Inr ys \<Rightarrow> Inr (y # ys)))"

text \<open>
  \<open>ind_aadhaar.validate_series\<close>: the column is first reduced to digits
  (\<open>clean_series_digits\<close>), then every entry goes through \<open>validate_single\<close>. The quality
  flags it adds are not copied into the working frame and are left out here.
\<close>

definition validate_aadhaar_series :: "pyval list \<Rightarrow> py_error + aadhaar_out list" where
  "validate_aadhaar_series series =
     (let s = map normalize_digits series
      in map_result (\<lambda>x. validate_single (PyStr x)) s)"

text \<open>
  \<open>phone.validate_series\<close> with a region column: each row is validated against its own
  upper-cased region, or the default one where that is empty; \<open>masked\<close> is added last.
\<close>

definition validate_phone_series ::
  "'n phonelib \<Rightarrow> pyval list \<Rightarrow> string list \<Rightarrow> string \<Rightarrow> (phone_out \<times> string) list" where
  "validate_phone_series lib phone_series region_series default_region =
     (let reg = map (lib_upper lib) region_series;
          rows = map (\<lambda>(r, rr). validate_single_phone lib r (py_or rr default_region))
                     (zip phone_series reg)
      in map (\<lambda>out. (out, mask_e164 (PyStr (e164 out)))) rows)"

section \<open>app.py: the batch\<close>

record in_row =
  aadhaar_raw :: pyval
  mobile_raw :: pyval
  country :: string

record work_row =
  w_aadhaar_raw :: pyval
  w_mobile_raw :: pyval
  w_country :: string
  aadhaar_clean :: string
  aadhaar_valid :: bool
  aadhaar_reason :: string
  aadhaar_category :: string
  aadhaar_masked :: string
  mobile_e164 :: string
  mobile_valid :: bool
  mobile_reason :: string
  mobile_region :: string
  mobile_type :: string
  mobile_masked :: string

datatype dedup_mode = DedupNone | DedupAadhaar | DedupMobile | DedupAadhaarMobile

record summary =
  total_rows :: nat
  processed :: nat
  distinct_after :: nat
  aadhaar_valid_count :: nat
  aadhaar_invalid_count :: nat
  mobile_valid_count :: nat
  mobile_invalid_count :: nat
  overall_valid_count :: nat
  dropped_all_empty :: nat
  dedup_applied :: nat

text \<open>Rows kept by \<open>keep_mask\<close>: some field is nonempty after \<open>clean_series_text\<close>.\<close>

definition keep_mask :: "in_row \<Rightarrow> bool" where
  "keep_mask r =
     (normalize_text (aadhaar_raw r) \<noteq> [] \<or> normalize_text (mobile_raw r) \<noteq> [])"

definition build_row :: "in_row \<Rightarrow> aadhaar_out \<Rightarrow> phone_out \<times> string \<Rightarrow> work_row" where
  "build_row r a pm =
     \<lparr>w_aadhaar_raw = aadhaar_raw r, w_mobile_raw = mobile_raw r, w_country = country r,
      aadhaar_clean = aadhaar a, aadhaar_valid = valid a, aadhaar_reason = reason a,
      aadhaar_category = category_aadhaar (reason a),
      aadhaar_masked = mask_aadhaar (PyStr (aadhaar a)),
      mobile_e164 = e164 (fst pm), mobile_valid = phone_valid (fst pm),
      mobile_reason = phone_reason (fst pm), mobile_region = region (fst pm),
      mobile_type = phone_type (fst pm), mobile_masked = snd pm\<rparr>"

text \<open>
  \<open>DataFrame.drop_duplicates(subset=...)\<close> with its default \<open>keep='first'\<close>: the rows are
  read in order, and a row is dropped when its key has been seen before.
\<close>

fun drop_duplicates_from :: "('r \<Rightarrow> 'k) \<Rightarrow> 'k list \<Rightarrow> 'r list \<Rightarrow> 'r list" where
  "drop_duplicates_from key seen [] = []"
| "drop_duplicates_from key seen (r # rs) =
     (if key r \<in> set seen then drop_duplicates_from key seen rs
      else r # drop_duplicates_from key (key r # seen) rs)"

definition drop_duplicates :: "('r \<Rightarrow> 'k) \<Rightarrow> 'r list \<Rightarrow> 'r list" where
  "drop_duplicates key rows = drop_duplicates_from key [] rows"

text \<open>The deduplication block: the frame after it, and \<open>dedup_applied\<close>.\<close>

definition apply_dedup :: "dedup_mode \<Rightarrow> work_row list \<Rightarrow> work_row list \<times> nat" where
  "apply_dedup mode work =
     (case mode of
        DedupAadhaar \<Rightarrow>
          (let before_d = length work; work' = drop_duplicates aadhaar_clean work
           in (work', before_d - length work'))
      | DedupMobile \<Rightarrow>
          (let before_d = length work; work' = drop_duplicates mobile_e164 work
           in (work', before_d - length work'))
      | DedupAadhaarMobile \<Rightarrow>
          (let before_d = length work;
               work' = drop_duplicates (\<lambda>r. (aadhaar_clean r, mobile_e164 r)) work
           in (work', before_d - length work'))
      | DedupNone \<Rightarrow> (work, 0))"

definition overall_valid_of :: "work_row \<Rightarrow> bool" where
  "overall_valid_of r =
     (let aadhaar_present = (aadhaar_clean r \<noteq> []);
          mobile_present = (mobile_e164 r \<noteq> []);
          both_present = (aadhaar_present \<and> mobile_present);
          only_a = (aadhaar_present \<and> \<not> mobile_present);
          only_m = (mobile_present \<and> \<not> aadhaar_present)
      in (both_present \<and> (aadhaar_valid r \<and> mobile_valid r))
         \<or> (only_a \<and> aadhaar_valid r)
         \<or> (only_m \<and> mobile_valid r))"

text \<open>
  One run of the script over the working columns of the uploaded table, from the
  empty-row filter to the summary. \<open>None\<close> is \<open>st.stop()\<close> on an empty working frame.
  Every row of the result is paired with its \<open>overall_valid\<close> flag.
\<close>

definition app_run ::
  "'n phonelib \<Rightarrow> string \<Rightarrow> dedup_mode \<Rightarrow> in_row list
     \<Rightarrow> py_error + ((work_row \<times> bool) list \<times> summary) option" where
  "app_run lib default_region mode df =
     (let before_n = length df;
          work0 = filter keep_mask df;
          dropped = before_n - length work0
      in if work0 = [] then Inr None
         else (case validate_aadhaar_series (map aadhaar_raw work0) of
                 Inl e \<Rightarrow> Inl e
               | Inr aadhaar_df \<Rightarrow>
                   (let phone_df = validate_phone_series lib (map mobile_raw work0)
                                     (map country work0) default_region;
                        work1 = map (\<lambda>(r, a, pm). build_row r a pm)
                                    (zip work0 (zip aadhaar_df phone_df));
                        (work2, dedup_n) = apply_dedup mode work1;
                        work3 = map (\<lambda>r. (r, overall_valid_of r)) work2;
                        n_processed = length work3
                    in Inr (Some (work3,
                         \<lparr>total_rows = length df,
                          processed = n_processed,
                          distinct_after = n_processed,
                          aadhaar_valid_count = length (filter (\<lambda>(r, ov). aadhaar_valid r) work3),
                          aadhaar_invalid_count =
                            length (filter (\<lambda>(r, ov). \<not> aadhaar_valid r \<and> aadhaar_clean r \<noteq> []) work3),
                          mobile_valid_count = length (filter (\<lambda>(r, ov). mobile_valid r) work3),
                          mobile_invalid_count =
                            length (filter (\<lambda>(r, ov). \<not> mobile_valid r \<and> mobile_e164 r \<noteq> []) work3),
                          overall_valid_count = length (filter (\<lambda>(r, ov). ov) work3),
                          dropped_all_empty = dropped,
                          dedup_applied = dedup_n\<rparr>)))))"

text \<open>
  The rows that first-occurrence-wins deduplication keeps, said with positions: row \<open>i\<close>
  stays exactly when no earlier row has its key.
\<close>

definition first_occurrences :: "('r \<Rightarrow> 'k) \<Rightarrow> 'r list \<Rightarrow> 'r list" where
  "first_occurrences key rows =
     map (\<lambda>i. rows ! i)
       (filter (\<lambda>i. list_all (\<lambda>j. key (rows ! j) \<noteq> key (rows ! i)) [0..<i]) [0..<length rows])"

section \<open>Bookkeeping notions for the proof about sequential runs\<close>

text \<open>
  \<open>suffix_run st acc\<close> reads the characters seen so far, latest first, and gives what the
  loop holds in \<open>run_up\<close> (\<open>st = 1\<close>) and \<open>run_down\<close> (\<open>st = -1\<close>) after reading them;
  \<open>run_reached\<close> is the loop's exit test on these two counters.
\<close>

fun suffix_run :: "int \<Rightarrow> ustring \<Rightarrow> nat" where
  "suffix_run st [] = 0"
| "suffix_run st [c] = 1"
| "suffix_run st (c # p # earlier) =
     (if ascii_digit c \<and> ascii_digit p \<and> digit_val c = digit_val p + st
      then Suc (suffix_run st (p # earlier)) else 1)"

definition run_reached :: "int \<Rightarrow> ustring \<Rightarrow> bool" where
  "run_reached m acc = (m \<le> int (suffix_run 1 acc) \<or> m \<le> int (suffix_run (- 1) acc))"

section \<open>Sample data for the worked examples\<close>

text \<open>
  A working-frame row with the given cleaned Aadhaar digits, Aadhaar verdict, canonical
  mobile number and mobile verdict, and a small stand-in for the phone library that
  accepts exactly the ten-digit strings as Indian mobile numbers. They are used only to
  run the definitions above on concrete inputs.
\<close>

definition sample_row :: "string \<Rightarrow> bool \<Rightarrow> string \<Rightarrow> bool \<Rightarrow> work_row" where
  "sample_row a av m mv =
     \<lparr>w_aadhaar_raw = PyStr a, w_mobile_raw = PyStr m, w_country = ''IN'',
      aadhaar_clean = a, aadhaar_valid = av, aadhaar_reason = [],
      aadhaar_category = [], aadhaar_masked = mask_aadhaar (PyStr a),
      mobile_e164 = m, mobile_valid = mv, mobile_reason = [], mobile_region = [],
      mobile_type = [], mobile_masked = mask_e164 (PyStr m)\<rparr>"

definition toy_lib :: "string phonelib" where
  "toy_lib =
     \<lparr>lib_parse = (\<lambda>s r. if length s = 10 \<and> list_all is_decimal s then Some s else None),
      lib_is_possible_number = (\<lambda>n. True),
      lib_is_valid_number = (\<lambda>n. True),
      lib_number_type = (\<lambda>n. 1),
      lib_type_to_string = (\<lambda>t. ''MOBILE''),
      lib_format_e164 = (\<lambda>n. ''+91'' @ n),
      lib_region_code = (\<lambda>n. Some ''IN''),
      lib_upper = (\<lambda>s. s)\<rparr>"

section \<open>Properties of the Verhoeff tables\<close>

lemma d_closed_all:
  "list_all (\<lambda>a. list_all (\<lambda>b. d_tab ! a ! b < 10) [0..<10]) [0..<10]"
  by code_simp

lemma d_closed: "a < 10 \<Longrightarrow> b < 10 \<Longrightarrow> d_tab ! a ! b < 10"
  using d_closed_all by (simp add: list_all_iff)

lemma p_closed_all:
  "list_all (\<lambda>i. list_all (\<lambda>x. p_tab ! i ! x < 10) [0..<10]) [0..<8]"
  by code_simp

lemma p_closed: "i < 8 \<Longrightarrow> x < 10 \<Longrightarrow> p_tab ! i ! x < 10"
  using p_closed_all by (simp add: list_all_iff)

lemma d_assoc_all:
  "list_all (\<lambda>a. list_all (\<lambda>b. list_all (\<lambda>c.
      d_tab ! (d_tab ! a ! b) ! c = d_tab ! a ! (d_tab ! b ! c)) [0..<10]) [0..<10]) [0..<10]"
  by code_simp

lemma d_assoc:
  "a < 10 \<Longrightarrow> b < 10 \<Longrightarrow> c < 10 \<Longrightarrow>
   d_tab ! (d_tab ! a ! b) ! c = d_tab ! a ! (d_tab ! b ! c)"
  using d_assoc_all by (simp add: list_all_iff)

lemma d_units_all:
  "list_all (\<lambda>a. d_tab ! 0 ! a = a \<and> d_tab ! a ! 0 = a \<and> p_tab ! 0 ! a = a
      \<and> inv_tab ! a < 10 \<and> d_tab ! (inv_tab ! a) ! a = 0) [0..<10]"
  by code_simp

lemma d_left_unit: "a < 10 \<Longrightarrow> d_tab ! 0 ! a = a"
  using d_units_all by (simp add: list_all_iff)

lemma d_right_unit: "a < 10 \<Longrightarrow> d_tab ! a ! 0 = a"
  using d_units_all by (simp add: list_all_iff)

lemma p_first_row: "a < 10 \<Longrightarrow> p_tab ! 0 ! a = a"
  using d_units_all by (simp add: list_all_iff)

lemma inv_closed: "a < 10 \<Longrightarrow> inv_tab ! a < 10"
  using d_units_all by (simp add: list_all_iff)

lemma d_inverse: "a < 10 \<Longrightarrow> d_tab ! (inv_tab ! a) ! a = 0"
  using d_units_all by (simp add: list_all_iff)

section \<open>Claim C1: the check digit validates\<close>

lemma int_of_char_range: "int_of_char c = Inr n \<Longrightarrow> n < 10"
  by (auto simp: int_of_char_def is_decimal_def Let_def split: if_splits)

lemma ints_of_range: "ints_of s = Inr xs \<Longrightarrow> list_all (\<lambda>x. x < 10) xs"
  by (induction s arbitrary: xs) (auto split: sum.splits dest: int_of_char_range)

lemma ints_of_decimal:
  "list_all is_decimal s \<Longrightarrow> ints_of s = Inr (map (\<lambda>c. of_char c - 48) s)"
  by (induction s) (auto simp: int_of_char_def)

lemma validate_loop_closed:
  "c < 10 \<Longrightarrow> list_all (\<lambda>x. x < 10) xs \<Longrightarrow> validate_loop i c xs < 10"
  by (induction xs arbitrary: i c) (auto simp: d_closed p_closed)

lemma check_loop_shift: "check_loop i c xs = validate_loop (Suc i) c xs"
  by (induction xs arbitrary: i c) auto

lemma validate_loop_factor:
  "c < 10 \<Longrightarrow> list_all (\<lambda>x. x < 10) xs \<Longrightarrow>
   validate_loop i c xs = d_tab ! c ! validate_loop i 0 xs"
proof (induction xs arbitrary: i c)
  case Nil
  then show ?case by (simp add: d_right_unit)
next
  case (Cons x xs)
  let ?px = "p_tab ! (i mod 8) ! x"
  from Cons.prems have x: "x < 10" and xs: "list_all (\<lambda>x. x < 10) xs" by simp_all
  have px: "?px < 10" using x by (simp add: p_closed)
  have v: "validate_loop (i + 1) 0 xs < 10" using xs by (simp add: validate_loop_closed)
  have "validate_loop i c (x # xs) = validate_loop (i + 1) (d_tab ! c ! ?px) xs" by simp
  also have "\<dots> = d_tab ! (d_tab ! c ! ?px) ! validate_loop (i + 1) 0 xs"
    using Cons.IH [of "d_tab ! c ! ?px" "i + 1"] Cons.prems(1) px xs by (simp add: d_closed)
  also have "\<dots> = d_tab ! c ! (d_tab ! ?px ! validate_loop (i + 1) 0 xs)"
    using Cons.prems(1) px v by (rule d_assoc)
  also have "d_tab ! ?px ! validate_loop (i + 1) 0 xs = validate_loop (i + 1) ?px xs"
    using Cons.IH [of ?px "i + 1"] px xs by simp
  also have "validate_loop (i + 1) ?px xs = validate_loop i 0 (x # xs)"
    using px by (simp add: d_left_unit)
  finally show ?case .
qed

lemma str_nat_digit: "n < 10 \<Longrightarrow> str_nat n = [char_of (48 + n)]"
  by simp

lemma digit_char_roundtrip:
  fixes n :: nat
  shows "n < 10 \<Longrightarrow> is_decimal (char_of (48 + n)) \<and> of_char (char_of (48 + n) :: char) - 48 = n"
  by (simp add: is_decimal_def Let_def)

text \<open>
  Claim C1. For every string \<open>b\<close> of eleven decimal digits, \<open>verhoeff_check_digit b\<close>
  returns one digit character \<open>k\<close> (it does not raise), and the twelve-digit string
  \<open>b @ [k]\<close> is accepted by \<open>verhoeff_validate\<close>.
\<close>

theorem verhoeff_check_digit_validates:
  assumes len: "length b = 11" and dig: "list_all is_decimal b"
  shows "\<exists>k. verhoeff_check_digit b = Inr [k] \<and> is_decimal k
            \<and> length (b @ [k]) = 12 \<and> list_all is_decimal (b @ [k])
            \<and> verhoeff_validate (b @ [k]) = Inr True"
proof -
  define xs where "xs = map (\<lambda>c. of_char c - 48 :: nat) (rev b)"
  have ints: "ints_of (rev b) = Inr xs"
    using dig by (simp add: xs_def ints_of_decimal)
  have xs: "list_all (\<lambda>x. x < 10) xs" using ints by (rule ints_of_range)
  define c where "c = check_loop 0 0 xs"
  have c_val: "c = validate_loop 1 0 xs" by (simp add: c_def check_loop_shift)
  have c: "c < 10" using xs by (simp add: c_val validate_loop_closed)
  define n where "n = inv_tab ! c"
  have n: "n < 10" using c by (simp add: n_def inv_closed)
  define k :: char where "k = char_of (48 + n)"
  have k: "is_decimal k" "of_char k - 48 = n"
    using digit_char_roundtrip [OF n] by (simp_all add: k_def)
  have cd: "verhoeff_check_digit b = Inr [k]"
    using n by (simp add: verhoeff_check_digit_def ints c_def [symmetric] n_def [symmetric] k_def)
  have "ints_of (rev (b @ [k])) = Inr (n # xs)"
    using k ints by (simp add: int_of_char_def)
  moreover have "validate_loop 0 0 (n # xs) = 0"
  proof -
    have "validate_loop 0 0 (n # xs) = validate_loop 1 n xs"
      using n by (simp add: p_first_row d_left_unit)
    also have "\<dots> = d_tab ! n ! validate_loop 1 0 xs"
      using n xs by (rule validate_loop_factor)
    also have "\<dots> = d_tab ! (inv_tab ! c) ! c" by (simp only: n_def c_val)
    also have "\<dots> = 0" using c by (rule d_inverse)
    finally show ?thesis .
  qed
  ultimately have "verhoeff_validate (b @ [k]) = Inr True"
    by (simp add: verhoeff_validate_def)
  with cd k len dig show ?thesis by auto
qed

theorem verhoeff_check_digit_validates_witness:
  "length ''23412341234'' = 11 \<and> list_all is_decimal ''23412341234''
   \<and> verhoeff_check_digit ''23412341234'' = Inr ''6''
   \<and> verhoeff_validate ''234123412346'' = Inr True"
proof -
  have len: "length ''23412341234'' = 11" by simp
  have dig: "list_all is_decimal ''23412341234''" by (simp add: is_decimal_def)
  have cd: "verhoeff_check_digit ''23412341234'' = Inr ''6''" by code_simp
  from verhoeff_check_digit_validates [OF len dig] cd
  have "verhoeff_validate ''234123412346'' = Inr True" by simp
  with len dig cd show ?thesis by simp
qed

section \<open>The batch never raises, and its counters\<close>

lemma normalize_digits_decimal: "list_all is_decimal (normalize_digits v)"
  by (simp add: normalize_digits_def strip_nondigits_def Let_def list_all_iff)

lemma ints_of_total: "list_all is_decimal s \<Longrightarrow> \<exists>xs. ints_of s = Inr xs"
  by (simp add: ints_of_decimal)

lemma verhoeff_validate_total:
  "list_all is_decimal s \<Longrightarrow> \<exists>ok. verhoeff_validate s = Inr ok"
  by (simp add: verhoeff_validate_def ints_of_decimal)

lemma validate_single_total: "\<exists>out. validate_single v = Inr out"
proof -
  obtain ok where "verhoeff_validate (normalize_digits v) = Inr ok"
    using verhoeff_validate_total [OF normalize_digits_decimal] by blast
  then show ?thesis by (simp add: validate_single_def Let_def)
qed

lemma map_result_total:
  "(\<And>x. \<exists>y. f x = Inr y) \<Longrightarrow> \<exists>ys. map_result f xs = Inr ys"
proof (induction xs)
  case Nil
  show ?case by simp
next
  case (Cons x xs)
  obtain y where "f x = Inr y" using Cons.prems by blast
  moreover obtain ys where "map_result f xs = Inr ys" using Cons by blast
  ultimately show ?case by simp
qed

lemma map_result_length: "map_result f xs = Inr ys \<Longrightarrow> length ys = length xs"
  by (induction xs arbitrary: ys) (auto split: sum.splits)

lemma validate_aadhaar_series_total: "\<exists>rows. validate_aadhaar_series series = Inr rows"
  unfolding validate_aadhaar_series_def Let_def
  by (rule map_result_total) (rule validate_single_total)

lemma validate_aadhaar_series_length:
  "validate_aadhaar_series series = Inr rows \<Longrightarrow> length rows = length series"
  by (auto simp: validate_aadhaar_series_def Let_def dest: map_result_length)

lemma validate_phone_series_length:
  "length rs = length ps \<Longrightarrow> length (validate_phone_series lib ps rs dr) = length ps"
  by (simp add: validate_phone_series_def Let_def)

lemma drop_duplicates_from_length: "length (drop_duplicates_from key seen rs) \<le> length rs"
  by (induction rs arbitrary: seen) (auto simp: le_SucI)

lemma apply_dedup_count:
  "length (fst (apply_dedup mode work)) + snd (apply_dedup mode work) = length work"
  by (cases mode)
     (simp_all add: apply_dedup_def Let_def drop_duplicates_def drop_duplicates_from_length)

lemma app_run_total: "\<exists>res. app_run lib dr mode df = Inr res"
proof -
  obtain a where "validate_aadhaar_series (map aadhaar_raw (filter keep_mask df)) = Inr a"
    using validate_aadhaar_series_total by blast
  then show ?thesis by (simp add: app_run_def Let_def split: prod.splits)
qed

lemma app_run_counters:
  assumes "app_run lib dr mode df = Inr (Some (rows, sm))"
  shows "total_rows sm = processed sm + dropped_all_empty sm + dedup_applied sm
         \<and> distinct_after sm = processed sm
         \<and> total_rows sm = length df \<and> processed sm = length rows
         \<and> dropped_all_empty sm = length (filter (\<lambda>r. \<not> keep_mask r) df)"
proof -
  let ?w0 = "filter keep_mask df"
  obtain a where a: "validate_aadhaar_series (map aadhaar_raw ?w0) = Inr a"
    using validate_aadhaar_series_total by blast
  have la: "length a = length ?w0" using validate_aadhaar_series_length [OF a] by simp
  let ?p = "validate_phone_series lib (map mobile_raw ?w0) (map country ?w0) dr"
  have lp: "length ?p = length ?w0" by (simp add: validate_phone_series_length)
  let ?w1 = "map (\<lambda>(r, a, pm). build_row r a pm) (zip ?w0 (zip a ?p))"
  have l1: "length ?w1 = length ?w0" using la lp by simp
  have cnt: "length (fst (apply_dedup mode ?w1)) + snd (apply_dedup mode ?w1) = length ?w0"
    using apply_dedup_count [of mode ?w1] l1 by simp
  have compl: "length ?w0 + length (filter (\<lambda>r. \<not> keep_mask r) df) = length df"
    by (rule sum_length_filter_compl)
  from assms a have ne: "?w0 \<noteq> []"
    by (auto simp: app_run_def Let_def split: if_splits)
  from assms a ne have
    "rows = map (\<lambda>r. (r, overall_valid_of r)) (fst (apply_dedup mode ?w1))"
    "total_rows sm = length df"
    "processed sm = length (fst (apply_dedup mode ?w1))"
    "distinct_after sm = length (fst (apply_dedup mode ?w1))"
    "dropped_all_empty sm = length df - length ?w0"
    "dedup_applied sm = snd (apply_dedup mode ?w1)"
    by (auto simp: app_run_def Let_def split: prod.splits)
  with cnt compl show ?thesis by auto
qed

section \<open>Claim C6: deduplication keeps first occurrences\<close>

lemma drop_duplicates_from_positions:
  "drop_duplicates_from key seen rs =
     map (\<lambda>i. rs ! i)
       (filter (\<lambda>i. key (rs ! i) \<notin> set seen \<and> (\<forall>j<i. key (rs ! j) \<noteq> key (rs ! i)))
          [0..<length rs])"
proof (induction rs arbitrary: seen)
  case Nil
  show ?case by simp
next
  case (Cons r rs)
  have upt: "[0..<Suc (length rs)] = 0 # map Suc [0..<length rs]"
    by (simp add: upt_conv_Cons map_Suc_upt del: upt_Suc)
  have all_Suc: "\<And>i Q. (\<forall>j<Suc i. Q j) = (Q 0 \<and> (\<forall>j<i. Q (Suc j)))"
    by (auto simp: less_Suc_eq_0_disj)
  show ?case
  proof (cases "key r \<in> set seen")
    case True
    then have "\<And>x. (key (rs ! x) \<notin> set seen \<and> key r \<noteq> key (rs ! x)
                  \<and> (\<forall>j<x. key (rs ! j) \<noteq> key (rs ! x)))
             = (key (rs ! x) \<notin> set seen \<and> (\<forall>j<x. key (rs ! j) \<noteq> key (rs ! x)))"
      by auto
    with True show ?thesis
      by (simp add: upt filter_map comp_def all_Suc Cons.IH del: upt_Suc)
  next
    case False
    have "\<And>x. (key (rs ! x) \<notin> set seen \<and> key r \<noteq> key (rs ! x)
                  \<and> (\<forall>j<x. key (rs ! j) \<noteq> key (rs ! x)))
             = (key (rs ! x) \<noteq> key r \<and> key (rs ! x) \<notin> set seen
                  \<and> (\<forall>j<x. key (rs ! j) \<noteq> key (rs ! x)))"
      by auto
    with False show ?thesis
      by (simp add: upt filter_map comp_def all_Suc Cons.IH del: upt_Suc)
  qed
qed

lemma drop_duplicates_first_occurrences:
  "drop_duplicates key rows = first_occurrences key rows"
proof -
  have "\<And>P i. list_all P [0..<i] = (\<forall>j<i. P j)"
    by (auto simp: list_all_iff)
  then show ?thesis
    by (simp add: drop_duplicates_def first_occurrences_def drop_duplicates_from_positions)
qed

text \<open>
  Claim C6. In each of the modes Aadhaar, Mobile and Aadhaar+Mobile the deduplication
  block keeps exactly the rows whose key (the cleaned Aadhaar digits, the canonical mobile
  number, or the pair) does not occur in an earlier row, in the original order, and
  \<open>dedup_applied\<close> is the number of rows removed. For rows with Aadhaar keys
  \<open>[A, B, A, C, B]\<close> (\<open>A\<close>, \<open>B\<close>, \<open>C\<close> distinct) in mode Aadhaar the kept rows are the
  first, second and fourth, and two rows are dropped.
\<close>

theorem dedup_first_occurrence_wins:
  "fst (apply_dedup DedupAadhaar work) = first_occurrences aadhaar_clean work
   \<and> fst (apply_dedup DedupMobile work) = first_occurrences mobile_e164 work
   \<and> fst (apply_dedup DedupAadhaarMobile work)
       = first_occurrences (\<lambda>r. (aadhaar_clean r, mobile_e164 r)) work
   \<and> snd (apply_dedup mode work) = length work - length (fst (apply_dedup mode work))
   \<and> (map aadhaar_clean [r1, r2, r3, r4, r5] = [A, B, A, C, B] \<and> distinct [A, B, C]
        \<longrightarrow> apply_dedup DedupAadhaar [r1, r2, r3, r4, r5] = ([r1, r2, r4], 2))"
proof -
  have ex: "apply_dedup DedupAadhaar [r1, r2, r3, r4, r5] = ([r1, r2, r4], 2)"
    if "map aadhaar_clean [r1, r2, r3, r4, r5] = [A, B, A, C, B]" "distinct [A, B, C]"
    using that by (auto simp: apply_dedup_def drop_duplicates_def Let_def)
  have cnt: "snd (apply_dedup mode work) = length work - length (fst (apply_dedup mode work))"
    by (cases mode) (simp_all add: apply_dedup_def Let_def)
  show ?thesis
    using ex cnt by (simp add: apply_dedup_def Let_def drop_duplicates_first_occurrences)
qed

theorem dedup_first_occurrence_wins_witness:
  "map aadhaar_clean
     [sample_row ''1'' False ''+911'' True, sample_row ''2'' False ''+912'' True,
      sample_row ''1'' False ''+913'' True, sample_row ''3'' False ''+914'' True,
      sample_row ''2'' False ''+915'' True] = [''1'', ''2'', ''1'', ''3'', ''2'']
   \<and> distinct [''1'', ''2'', ''3'']
   \<and> apply_dedup DedupAadhaar
       [sample_row ''1'' False ''+911'' True, sample_row ''2'' False ''+912'' True,
        sample_row ''1'' False ''+913'' True, sample_row ''3'' False ''+914'' True,
        sample_row ''2'' False ''+915'' True]
     = ([sample_row ''1'' False ''+911'' True, sample_row ''2'' False ''+912'' True,
         sample_row ''3'' False ''+914'' True], 2)"
proof -
  have keys: "map aadhaar_clean
     [sample_row ''1'' False ''+911'' True, sample_row ''2'' False ''+912'' True,
      sample_row ''1'' False ''+913'' True, sample_row ''3'' False ''+914'' True,
      sample_row ''2'' False ''+915'' True] = [''1'', ''2'', ''1'', ''3'', ''2'']"
    by (simp add: sample_row_def)
  have dist: "distinct [''1'', ''2'', ''3'']" by simp
  from dedup_first_occurrence_wins
    [where work = "[]" and mode = DedupNone
       and ?r1.0 = "sample_row ''1'' False ''+911'' True"
       and ?r2.0 = "sample_row ''2'' False ''+912'' True"
       and ?r3.0 = "sample_row ''1'' False ''+913'' True"
       and ?r4.0 = "sample_row ''3'' False ''+914'' True"
       and ?r5.0 = "sample_row ''2'' False ''+915'' True"
       and A = "''1''" and B = "''2''" and C = "''3''"]
    keys dist
  show ?thesis by blast
qed

section \<open>Claims C10, C4 and C3: the record decision engine\<close>

lemma drop_duplicates_from_key_class:
  "filter (\<lambda>r. key r = k) (drop_duplicates_from key seen rs)
     = (if k \<in> set seen then [] else take 1 (filter (\<lambda>r. key r = k) rs))"
  by (induction rs arbitrary: seen) auto

lemma drop_duplicates_key_class:
  "filter (\<lambda>r. key r = k) (drop_duplicates key rs) = take 1 (filter (\<lambda>r. key r = k) rs)"
  by (simp add: drop_duplicates_def drop_duplicates_from_key_class)

lemma filter_length_mono_dd:
  "length (filter P (drop_duplicates_from key seen rs)) \<le> length (filter P rs)"
  by (induction rs arbitrary: seen) (auto simp: le_SucI)

text \<open>
  Claim C10. In mode Aadhaar, of all rows whose cleaned Aadhaar digit string is empty only
  the first in input order survives deduplication, whatever their mobile values are, and
  all later ones are among the rows counted by \<open>dedup_applied\<close>; likewise in mode Mobile
  for the rows whose canonical mobile number is empty.
\<close>

theorem empty_key_rows_collapse:
  "filter (\<lambda>r. aadhaar_clean r = []) (fst (apply_dedup DedupAadhaar work))
     = take 1 (filter (\<lambda>r. aadhaar_clean r = []) work)
   \<and> length (filter (\<lambda>r. aadhaar_clean r = []) work)
       \<le> Suc (snd (apply_dedup DedupAadhaar work))
   \<and> filter (\<lambda>r. mobile_e164 r = []) (fst (apply_dedup DedupMobile work))
     = take 1 (filter (\<lambda>r. mobile_e164 r = []) work)
   \<and> length (filter (\<lambda>r. mobile_e164 r = []) work)
       \<le> Suc (snd (apply_dedup DedupMobile work))"
proof -
  have count: "length (filter P rs) \<le> Suc (length rs - length (drop_duplicates key rs))"
    if "filter P (drop_duplicates key rs) = take 1 (filter P rs)"
    for P :: "work_row \<Rightarrow> bool" and key :: "work_row \<Rightarrow> string" and rs
  proof -
    let ?kept = "drop_duplicates key rs"
    have split_all: "length (filter P rs) + length (filter (\<lambda>r. \<not> P r) rs) = length rs"
      by (rule sum_length_filter_compl)
    have split_kept: "length (filter P ?kept) + length (filter (\<lambda>r. \<not> P r) ?kept) = length ?kept"
      by (rule sum_length_filter_compl)
    have others: "length (filter (\<lambda>r. \<not> P r) ?kept) \<le> length (filter (\<lambda>r. \<not> P r) rs)"
      by (simp add: drop_duplicates_def filter_length_mono_dd)
    have "length (filter P ?kept) \<le> 1" using that by simp
    with split_all split_kept others show ?thesis by linarith
  qed
  show ?thesis
    using count [of "\<lambda>r. aadhaar_clean r = []" aadhaar_clean work]
          count [of "\<lambda>r. mobile_e164 r = []" mobile_e164 work]
    by (simp add: apply_dedup_def Let_def drop_duplicates_key_class)
qed

theorem empty_key_rows_collapse_witness:
  "fst (apply_dedup DedupAadhaar
         [sample_row [] False ''+911'' True, sample_row ''7'' False ''+912'' True,
          sample_row [] False ''+913'' True])
     = [sample_row [] False ''+911'' True, sample_row ''7'' False ''+912'' True]
   \<and> filter (\<lambda>r. aadhaar_clean r = [])
        (fst (apply_dedup DedupAadhaar
           [sample_row [] False ''+911'' True, sample_row ''7'' False ''+912'' True,
            sample_row [] False ''+913'' True]))
     = [sample_row [] False ''+911'' True]
   \<and> snd (apply_dedup DedupAadhaar
         [sample_row [] False ''+911'' True, sample_row ''7'' False ''+912'' True,
          sample_row [] False ''+913'' True]) = 1"
proof -
  have run: "apply_dedup DedupAadhaar
         [sample_row [] False ''+911'' True, sample_row ''7'' False ''+912'' True,
          sample_row [] False ''+913'' True]
       = ([sample_row [] False ''+911'' True, sample_row ''7'' False ''+912'' True], 1)"
    by (simp add: apply_dedup_def drop_duplicates_def Let_def sample_row_def)
  have "take 1 (filter (\<lambda>r. aadhaar_clean r = [])
         [sample_row [] False ''+911'' True, sample_row ''7'' False ''+912'' True,
          sample_row [] False ''+913'' True]) = [sample_row [] False ''+911'' True]"
    by (simp add: sample_row_def)
  with empty_key_rows_collapse
         [of "[sample_row [] False ''+911'' True, sample_row ''7'' False ''+912'' True,
               sample_row [] False ''+913'' True]"]
       run
  show ?thesis by simp
qed

lemma app_run_overall_valid:
  assumes "app_run lib dr mode df = Inr (Some (rows, sm))" and "(r, ov) \<in> set rows"
  shows "ov = overall_valid_of r"
proof -
  obtain a where a: "validate_aadhaar_series (map aadhaar_raw (filter keep_mask df)) = Inr a"
    using validate_aadhaar_series_total by blast
  from assms(1) a have "\<exists>w. rows = map (\<lambda>r. (r, overall_valid_of r)) w"
    by (auto simp: app_run_def Let_def split: if_splits prod.splits)
  with assms(2) show ?thesis by auto
qed

text \<open>
  Claim C4. Every processed row carries the flag \<open>overall_valid_of\<close> of that row, and with
  Aadhaar present meaning \<open>aadhaar_clean \<noteq> ""\<close> and mobile present meaning
  \<open>mobile_e164 \<noteq> ""\<close>: when both are present the flag is true iff both field outcomes are
  valid; when only Aadhaar is present, iff the Aadhaar outcome is valid; when only the
  mobile is present, iff the mobile outcome is valid; when neither is present it is false.
\<close>

theorem overall_valid_by_presence:
  "(app_run lib dr mode df = Inr (Some (rows, sm)) \<and> (r', ov) \<in> set rows
       \<longrightarrow> ov = overall_valid_of r')
   \<and> (aadhaar_clean r \<noteq> [] \<and> mobile_e164 r \<noteq> []
       \<longrightarrow> overall_valid_of r = (aadhaar_valid r \<and> mobile_valid r))
   \<and> (aadhaar_clean r \<noteq> [] \<and> mobile_e164 r = []
       \<longrightarrow> overall_valid_of r = aadhaar_valid r)
   \<and> (aadhaar_clean r = [] \<and> mobile_e164 r \<noteq> []
       \<longrightarrow> overall_valid_of r = mobile_valid r)
   \<and> (aadhaar_clean r = [] \<and> mobile_e164 r = [] \<longrightarrow> \<not> overall_valid_of r)"
  using app_run_overall_valid [of lib dr mode df rows sm r' ov]
  by (auto simp: overall_valid_of_def Let_def)

text \<open>
  Claim C3. The claim asks for \<open>total_rows = processed + dropped_all_empty\<close> and
  \<open>processed = distinct_after + dedup_applied\<close>. The script takes \<open>processed\<close> after the
  deduplication block and copies it into \<open>distinct_after\<close>, so both equations fail as
  soon as one duplicate is dropped (lemma \<open>app_run_counters\<close> gives what does hold).
  Two rows with the same Aadhaar value in mode Aadhaar, for any phone library:
\<close>

theorem counters_not_reconciled_after_dedup:
  "\<exists>rows sm.
     app_run lib ''IN'' DedupAadhaar
       [\<lparr>aadhaar_raw = PyStr ''1'', mobile_raw = PyStr [], country = ''IN''\<rparr>,
        \<lparr>aadhaar_raw = PyStr ''1'', mobile_raw = PyStr [], country = ''IN''\<rparr>]
       = Inr (Some (rows, sm))
     \<and> total_rows sm = 2 \<and> processed sm = 1 \<and> dropped_all_empty sm = 0
     \<and> distinct_after sm = 1 \<and> dedup_applied sm = 1
     \<and> total_rows sm \<noteq> processed sm + dropped_all_empty sm
     \<and> processed sm \<noteq> distinct_after sm + dedup_applied sm"
proof -
  have nt: "normalize_text (PyStr ''1'') = ''1''" "normalize_text (PyStr []) = []"
    by code_simp+
  have nd: "normalize_digits (PyStr ''1'') = ''1''"
    by code_simp
  have vs: "validate_single (PyStr ''1'')
    = Inr \<lparr>aadhaar = ''1'', valid = False, reason = ''LENGTH_NEQ_12''\<rparr>"
    by code_simp
  show ?thesis
    by (simp add: app_run_def keep_mask_def nt nd vs validate_aadhaar_series_def
        validate_phone_series_def validate_single_phone_def build_row_def
        apply_dedup_def drop_duplicates_def Let_def)
qed

theorem overall_valid_by_presence_witness:
  "overall_valid_of (sample_row ''234123412346'' True ''+919876543210'' True)
   \<and> \<not> overall_valid_of (sample_row ''234123412346'' True ''+9198'' False)
   \<and> overall_valid_of (sample_row ''234123412346'' True [] False)
   \<and> overall_valid_of (sample_row [] False ''+919876543210'' True)
   \<and> \<not> overall_valid_of (sample_row [] False [] False)
   \<and> (\<exists>rows sm r.
         app_run toy_lib ''IN'' DedupNone
           [\<lparr>aadhaar_raw = PyStr ''1'', mobile_raw = PyStr ''9876543210'', country = []\<rparr>]
           = Inr (Some (rows, sm))
         \<and> (r, False) \<in> set rows \<and> \<not> aadhaar_valid r \<and> mobile_valid r
         \<and> \<not> overall_valid_of r)"
proof -
  have both: "overall_valid_of (sample_row ''234123412346'' True ''+919876543210'' True)"
    using overall_valid_by_presence [where rows = "[]" and r = "sample_row ''234123412346'' True ''+919876543210'' True"]
    by (simp add: sample_row_def)
  have both_bad: "\<not> overall_valid_of (sample_row ''234123412346'' True ''+9198'' False)"
    using overall_valid_by_presence [where rows = "[]" and r = "sample_row ''234123412346'' True ''+9198'' False"]
    by (simp add: sample_row_def)
  have only_a: "overall_valid_of (sample_row ''234123412346'' True [] False)"
    using overall_valid_by_presence [where rows = "[]" and r = "sample_row ''234123412346'' True [] False"]
    by (simp add: sample_row_def)
  have only_m: "overall_valid_of (sample_row [] False ''+919876543210'' True)"
    using overall_valid_by_presence [where rows = "[]" and r = "sample_row [] False ''+919876543210'' True"]
    by (simp add: sample_row_def)
  have neither: "\<not> overall_valid_of (sample_row [] False [] False)"
    using overall_valid_by_presence [where rows = "[]" and r = "sample_row [] False [] False"]
    by (simp add: sample_row_def)
  have nt: "normalize_text (PyStr ''1'') = ''1''"
    "normalize_text (PyStr ''9876543210'') = ''9876543210''"
    by code_simp+
  have nd: "normalize_digits (PyStr ''1'') = ''1''"
    by code_simp
  have vs: "validate_single (PyStr ''1'')
    = Inr \<lparr>aadhaar = ''1'', valid = False, reason = ''LENGTH_NEQ_12''\<rparr>"
    by code_simp
  have dec: "list_all is_decimal ''9876543210''" by code_simp
  obtain rows sm r where run:
    "app_run toy_lib ''IN'' DedupNone
       [\<lparr>aadhaar_raw = PyStr ''1'', mobile_raw = PyStr ''9876543210'', country = []\<rparr>]
       = Inr (Some (rows, sm))"
    "rows = [(r, overall_valid_of r)]" "\<not> aadhaar_valid r" "mobile_valid r"
    "aadhaar_clean r \<noteq> []" "mobile_e164 r \<noteq> []"
    by (simp add: app_run_def keep_mask_def nt nd vs is_decimal_def validate_aadhaar_series_def
        validate_phone_series_def validate_single_phone_def build_row_def toy_lib_def
        apply_dedup_def py_or_def Let_def)
  have "\<not> overall_valid_of r"
    using overall_valid_by_presence [of toy_lib "''IN''" DedupNone _ rows sm r "overall_valid_of r" r] run
    by simp
  with run both both_bad only_a only_m neither show ?thesis by auto
qed

text \<open>
  The same collapse seen from the input: two mobile-only rows with different valid
  numbers, in mode Aadhaar. Both get the empty Aadhaar key, and the second is dropped.
\<close>

lemma mobile_only_rows_collapse_example:
  "\<exists>r sm.
     app_run toy_lib ''IN'' DedupAadhaar
       [\<lparr>aadhaar_raw = PyStr [], mobile_raw = PyStr ''9876543210'', country = []\<rparr>,
        \<lparr>aadhaar_raw = PyNone, mobile_raw = PyStr ''9876543211'', country = []\<rparr>]
       = Inr (Some ([(r, True)], sm))
     \<and> aadhaar_clean r = [] \<and> mobile_e164 r = ''+919876543210''
     \<and> dedup_applied sm = 1 \<and> processed sm = 1 \<and> total_rows sm = 2"
proof -
  have nt: "normalize_text (PyStr []) = []" "normalize_text PyNone = []"
    "normalize_text (PyStr ''9876543210'') = ''9876543210''"
    "normalize_text (PyStr ''9876543211'') = ''9876543211''"
    by code_simp+
  have nd: "normalize_digits (PyStr []) = []" "normalize_digits PyNone = []"
    by code_simp+
  have vs: "validate_single (PyStr [])
    = Inr \<lparr>aadhaar = [], valid = False, reason = ''MISSING''\<rparr>"
    by code_simp
  have dec: "list_all is_decimal ''9876543210''"  "list_all is_decimal ''9876543211''"
    by code_simp+
  show ?thesis
    by (simp add: app_run_def keep_mask_def nt nd vs is_decimal_def validate_aadhaar_series_def
        validate_phone_series_def validate_single_phone_def build_row_def toy_lib_def
        apply_dedup_def drop_duplicates_def overall_valid_of_def py_or_def Let_def)
qed

section \<open>Claim C2: the reasons of the Aadhaar validator\<close>

lemma decimal_isdigit: "is_decimal c \<Longrightarrow> isdigit_char c"
  by (simp add: is_decimal_def isdigit_char_def Let_def)

lemma normalize_digits_isdigit:
  "normalize_digits v \<noteq> [] \<Longrightarrow> str_isdigit (normalize_digits v)"
  using normalize_digits_decimal [of v]
  by (auto simp: str_isdigit_def list_all_iff decimal_isdigit)

text \<open>
  Claim C2. \<open>validate_single\<close> has a \<open>NON_NUMERIC\<close> branch, second in the order of its
  tests, but the test reads the string from which \<open>normalize_digits\<close> has already deleted
  every non-digit, so it cannot fail. The input \<open>12ab\<close> has a nonempty normalized text
  that is not purely digits, and the validator answers \<open>LENGTH_NEQ_12\<close> where the claim
  requires \<open>NON_NUMERIC\<close>.
\<close>

theorem validate_single_nonnumeric_payload:
  "normalize_text (PyStr ''12ab'') = ''12ab'' \<and> \<not> list_all is_decimal ''12ab''
   \<and> validate_single (PyStr ''12ab'')
       = Inr \<lparr>aadhaar = ''12'', valid = False, reason = ''LENGTH_NEQ_12''\<rparr>
   \<and> ''LENGTH_NEQ_12'' \<noteq> ''NON_NUMERIC''"
  by code_simp

text \<open>
  What the validator computes on every input: it never raises, and its answer depends on
  the digit-only string \<open>normalize_digits v\<close> alone. This is how the unreachable branch
  shows: non-digit payload never changes the reason.
\<close>

lemma validate_single_decides_on_digits:
  "\<exists>out. validate_single v = Inr out
     \<and> aadhaar out = normalize_digits v
     \<and> reason out \<noteq> ''NON_NUMERIC''
     \<and> reason out =
         (if normalize_digits v = [] then ''MISSING''
          else if length (normalize_digits v) \<noteq> 12 then ''LENGTH_NEQ_12''
          else if verhoeff_validate (normalize_digits v) \<noteq> Inr True then ''CHECKSUM_FAIL''
          else [])
     \<and> valid out = (reason out = [])"
proof -
  obtain ok where ok: "verhoeff_validate (normalize_digits v) = Inr ok"
    using verhoeff_validate_total [OF normalize_digits_decimal] by blast
  show ?thesis
  proof (cases "normalize_digits v = []")
    case True
    then show ?thesis by (simp add: validate_single_def Let_def)
  next
    case False
    then have "str_isdigit (normalize_digits v)" by (rule normalize_digits_isdigit)
    with False ok show ?thesis by (simp add: validate_single_def Let_def)
  qed
qed

lemma validate_single_examples:
  "validate_single (PyStr ''2341-2341-2346'')
     = Inr \<lparr>aadhaar = ''234123412346'', valid = True, reason = []\<rparr>
   \<and> validate_single (PyStr ''12ab'')
     = Inr \<lparr>aadhaar = ''12'', valid = False, reason = ''LENGTH_NEQ_12''\<rparr>
   \<and> validate_single (PyStr ''abc'')
     = Inr \<lparr>aadhaar = [], valid = False, reason = ''MISSING''\<rparr>"
proof -
  have nd: "normalize_digits (PyStr ''2341-2341-2346'') = ''234123412346''"
    "normalize_digits (PyStr ''12ab'') = ''12''"
    "normalize_digits (PyStr ''abc'') = []"
    by code_simp+
  have vv: "verhoeff_validate ''234123412346'' = Inr True" by code_simp
  have a: "validate_single (PyStr ''2341-2341-2346'')
     = Inr \<lparr>aadhaar = ''234123412346'', valid = True, reason = []\<rparr>"
    using validate_single_decides_on_digits [of "PyStr ''2341-2341-2346''"] nd vv by auto
  have b: "validate_single (PyStr ''12ab'')
     = Inr \<lparr>aadhaar = ''12'', valid = False, reason = ''LENGTH_NEQ_12''\<rparr>"
    using validate_single_decides_on_digits [of "PyStr ''12ab''"] nd by auto
  have c: "validate_single (PyStr ''abc'')
     = Inr \<lparr>aadhaar = [], valid = False, reason = ''MISSING''\<rparr>"
    using validate_single_decides_on_digits [of "PyStr ''abc''"] nd by auto
  from a b c show ?thesis by simp
qed

section \<open>Claim C5: normalizing twice\<close>

lemma split_ws_words:
  "w \<in> set (split_ws s) \<Longrightarrow> w \<noteq> [] \<and> (\<forall>c\<in>set w. \<not> is_space c)"
proof (induction s rule: split_ws.induct)
  case 1
  then show ?case by simp
next
  case (2 c cs)
  show ?case
  proof (cases "is_space c")
    case True
    with "2.prems" have "w \<in> set (split_ws cs)" by simp
    with "2.IH"(1) True show ?thesis by blast
  next
    case False
    with "2.prems" have "w = c # takeWhile (\<lambda>x. \<not> is_space x) cs
        \<or> w \<in> set (split_ws (dropWhile (\<lambda>x. \<not> is_space x) cs))"
      by simp
    then show ?thesis
    proof
      assume "w = c # takeWhile (\<lambda>x. \<not> is_space x) cs"
      then show ?thesis using False by (auto dest: set_takeWhileD)
    next
      assume "w \<in> set (split_ws (dropWhile (\<lambda>x. \<not> is_space x) cs))"
      with "2.IH"(2) False show ?thesis by blast
    qed
  qed
qed

lemma split_ws_Nil_iff: "split_ws s = [] \<longleftrightarrow> (\<forall>c\<in>set s. is_space c)"
  by (induction s rule: split_ws.induct) auto

lemma str_strip_Nil_iff: "str_strip s = [] \<longleftrightarrow> (\<forall>c\<in>set s. is_space c)"
proof
  assume "str_strip s = []"
  then have all: "\<forall>x\<in>set (dropWhile is_space s). is_space x"
    by (simp add: str_strip_def)
  have "dropWhile is_space s = []"
  proof (rule ccontr)
    assume ne: "dropWhile is_space s \<noteq> []"
    then have "\<not> is_space (hd (dropWhile is_space s))" by (rule hd_dropWhile)
    moreover have "hd (dropWhile is_space s) \<in> set (dropWhile is_space s)"
      using ne by simp
    ultimately show False using all by blast
  qed
  then show "\<forall>c\<in>set s. is_space c" by simp
next
  assume "\<forall>c\<in>set s. is_space c"
  then show "str_strip s = []"
    by (auto simp: str_strip_def dest: set_dropWhileD)
qed

lemma split_ws_one_word:
  assumes "s \<noteq> []" and nosp: "\<forall>c\<in>set s. \<not> is_space c"
  shows "split_ws s = [s]"
proof (cases s)
  case Nil
  with assms show ?thesis by simp
next
  case (Cons c cs)
  with nosp have c: "\<not> is_space c" and cs: "\<forall>x\<in>set cs. \<not> is_space x" by simp_all
  from cs have tw: "takeWhile (\<lambda>x. \<not> is_space x) cs = cs"
    and dw: "dropWhile (\<lambda>x. \<not> is_space x) cs = []"
    by simp_all
  show ?thesis unfolding Cons by (simp add: c tw dw)
qed

lemma split_ws_word_then_space:
  assumes "w \<noteq> []" "\<forall>c\<in>set w. \<not> is_space c" "is_space x"
  shows "split_ws (w @ x # t) = w # split_ws t"
proof -
  obtain c w' where w: "w = c # w'" using assms(1) by (cases w) auto
  have tw: "takeWhile (\<lambda>x. \<not> is_space x) (w' @ x # t) = w'"
    using assms(2,3) w by (simp add: takeWhile_tail)
  have dw: "dropWhile (\<lambda>x. \<not> is_space x) (w' @ x # t) = x # t"
    using assms(2,3) w by (simp add: dropWhile_append3)
  show ?thesis using assms(2,3) w tw dw by simp
qed

lemma split_ws_join_space:
  "\<forall>w\<in>set ws. w \<noteq> [] \<and> (\<forall>c\<in>set w. \<not> is_space c) \<Longrightarrow> split_ws (join_space ws) = ws"
proof (induction ws rule: join_space.induct)
  case 1
  show ?case by simp
next
  case (2 w)
  then show ?case by (simp add: split_ws_one_word)
next
  case (3 w v ws)
  have sp: "is_space CHR '' ''" by (simp add: is_space_def)
  from 3 show ?case
    using split_ws_word_then_space [of w "CHR '' ''" "join_space (v # ws)"] sp by simp
qed

lemma join_space_ends:
  "ws \<noteq> [] \<Longrightarrow> \<forall>w\<in>set ws. w \<noteq> [] \<Longrightarrow>
     join_space ws \<noteq> [] \<and> hd (join_space ws) = hd (hd ws)
     \<and> last (join_space ws) = last (last ws)"
  by (induction ws rule: join_space.induct) auto

lemma str_strip_id:
  "s \<noteq> [] \<Longrightarrow> \<not> is_space (hd s) \<Longrightarrow> \<not> is_space (last s) \<Longrightarrow> str_strip s = s"
proof -
  assume s: "s \<noteq> []" "\<not> is_space (hd s)" "\<not> is_space (last s)"
  have a: "dropWhile is_space s = s"
    using s by (simp add: dropWhile_eq_self_iff)
  have b: "dropWhile is_space (rev s) = rev s"
    using s by (simp add: dropWhile_eq_self_iff hd_rev)
  show ?thesis by (simp add: str_strip_def a b)
qed

lemma str_strip_join_space:
  assumes "ws \<noteq> []" "\<forall>w\<in>set ws. w \<noteq> [] \<and> (\<forall>c\<in>set w. \<not> is_space c)"
  shows "str_strip (join_space ws) = join_space ws"
proof -
  have ends: "join_space ws \<noteq> []" "hd (join_space ws) = hd (hd ws)"
    "last (join_space ws) = last (last ws)"
    using join_space_ends [of ws] assms by auto
  have "hd ws \<in> set ws" "last ws \<in> set ws" using assms(1) by simp_all
  then have "\<not> is_space (hd (hd ws))" "\<not> is_space (last (last ws))"
    using assms(2) by (auto simp: hd_in_set last_in_set)
  with ends show ?thesis by (simp add: str_strip_id)
qed

lemma normalize_text_shape:
  "normalize_text (PyStr s) =
     (if split_ws s = [] \<or> str_lower s = ''nan'' then [] else join_space (split_ws s))"
  using str_strip_join_space [of "split_ws s"] split_ws_words [of _ s]
  by (auto simp: normalize_text_def str_strip_Nil_iff split_ws_Nil_iff)

lemma normalize_text_twice:
  "normalize_text (PyStr (normalize_text v))
     = (if str_lower (normalize_text v) = ''nan'' then [] else normalize_text v)"
proof (cases v)
  case PyNone
  then show ?thesis by (simp add: normalize_text_def str_strip_def)
next
  case (PyStr s)
  show ?thesis
  proof (cases "split_ws s = [] \<or> str_lower s = ''nan''")
    case True
    then have "normalize_text v = []" by (simp add: PyStr normalize_text_shape)
    then show ?thesis by (simp add: normalize_text_def str_strip_def)
  next
    case False
    let ?ws = "split_ws s"
    have words: "\<forall>w\<in>set ?ws. w \<noteq> [] \<and> (\<forall>c\<in>set w. \<not> is_space c)"
      using split_ws_words by blast
    have r: "normalize_text v = join_space ?ws"
      using False by (simp add: PyStr normalize_text_shape)
    have again: "split_ws (join_space ?ws) = ?ws"
      using words by (rule split_ws_join_space)
    show ?thesis
      using False by (simp add: r normalize_text_shape again)
  qed
qed

lemma normalize_text_idempotent_unless_nan:
  "str_lower (normalize_text v) \<noteq> ''nan'' \<Longrightarrow>
     normalize_text (PyStr (normalize_text v)) = normalize_text v"
  by (simp add: normalize_text_twice)

text \<open>Digit strings are fixed points of both normalizers.\<close>

lemma decimal_not_space: "is_decimal c \<Longrightarrow> \<not> is_space c"
  by (auto simp: is_decimal_def is_space_def Let_def)

lemma decimal_lower: "is_decimal c \<Longrightarrow> lower_char c = c"
  by (auto simp: is_decimal_def lower_char_def Let_def)

lemma normalize_text_digits:
  assumes "list_all is_decimal ds"
  shows "normalize_text (PyStr ds) = ds"
proof (cases "ds = []")
  case True
  then show ?thesis by (simp add: normalize_text_def str_strip_def)
next
  case False
  have nosp: "\<forall>c\<in>set ds. \<not> is_space c"
    using assms by (auto simp: list_all_iff decimal_not_space)
  have "str_lower ds = ds"
    using assms by (auto simp: str_lower_def list_all_iff decimal_lower intro: map_idI)
  moreover have "\<not> list_all is_decimal ''nan''" by (simp add: is_decimal_def)
  ultimately have "str_lower ds \<noteq> ''nan''" using assms by auto
  with False nosp show ?thesis
    by (simp add: normalize_text_shape split_ws_one_word)
qed

lemma normalize_digits_idempotent:
  "normalize_digits (PyStr (normalize_digits v)) = normalize_digits v"
proof -
  have dec: "list_all is_decimal (normalize_digits v)" by (rule normalize_digits_decimal)
  then have "filter is_decimal (normalize_digits v) = normalize_digits v"
    by (simp add: list_all_iff)
  with normalize_text_digits [OF dec] show ?thesis
    by (simp add: normalize_digits_def [of "PyStr (normalize_digits v)"] strip_nondigits_def Let_def)
qed

text \<open>
  Claim C5. \<open>normalize_text\<close> tests for the missing-value marker \<open>nan\<close> on the unstripped
  string, while it tests for emptiness on the stripped one. A padded marker therefore
  survives the first pass as \<open>nan\<close> and is turned into the empty string by the second.
  By lemma \<open>normalize_text_twice\<close> these are the only inputs on which normalizing twice
  differs from normalizing once.
\<close>

theorem normalize_text_padded_nan:
  "normalize_text (PyStr '' nan '') = ''nan''
   \<and> normalize_text (PyStr (normalize_text (PyStr '' nan ''))) = []
   \<and> normalize_text (PyStr (normalize_text (PyStr '' nan '')))
       \<noteq> normalize_text (PyStr '' nan '')"
  by code_simp

section \<open>Claim C8: masking an Aadhaar number\<close>

text \<open>
  Claim C8 as stated fails. With two digits the mask is neither the prefix followed by
  the digits as they are nor by the digits padded on the right: the format pads on the
  left. With no digit at all the mask is empty and does not start with the prefix.
\<close>

theorem mask_aadhaar_short_counterexample:
  "mask_aadhaar (PyStr ''12'') = ''XXXX-XXXX-  12''
   \<and> mask_aadhaar (PyStr ''12'') \<noteq> ''XXXX-XXXX-'' @ ''12''
   \<and> mask_aadhaar (PyStr ''12'') \<noteq> ''XXXX-XXXX-'' @ ''12  ''
   \<and> mask_aadhaar (PyStr []) = []"
  by code_simp

text \<open>
  Claim C8, amended. \<open>mask_aadhaar\<close> returns the empty string when its input has no digit;
  otherwise it returns \<open>XXXX-XXXX-\<close> followed by the last four characters of the digit
  string when there are at least four, and by the digit string padded on the left with
  spaces to width four when there are fewer; the result then has 14 characters. In
  particular \<open>234123412346\<close> is masked as \<open>XXXX-XXXX-2346\<close>.
\<close>

theorem mask_aadhaar_format:
  "(normalize_digits v = [] \<longrightarrow> mask_aadhaar v = [])
   \<and> (4 \<le> length (normalize_digits v) \<longrightarrow>
        mask_aadhaar v
          = ''XXXX-XXXX-'' @ drop (length (normalize_digits v) - 4) (normalize_digits v))
   \<and> (normalize_digits v \<noteq> [] \<and> length (normalize_digits v) < 4 \<longrightarrow>
        mask_aadhaar v
          = ''XXXX-XXXX-'' @ replicate (4 - length (normalize_digits v)) CHR '' ''
              @ normalize_digits v)
   \<and> (normalize_digits v \<noteq> [] \<longrightarrow> length (mask_aadhaar v) = 14)
   \<and> mask_aadhaar (PyStr ''234123412346'') = ''XXXX-XXXX-2346''"
proof -
  have "mask_aadhaar (PyStr ''234123412346'') = ''XXXX-XXXX-2346''" by code_simp
  then show ?thesis
    by (auto simp: mask_aadhaar_def Let_def last4_of_def rjust_def)
qed

theorem mask_aadhaar_format_witness:
  "mask_aadhaar (PyStr ''abc'') = []
   \<and> mask_aadhaar (PyStr ''98-7654'') = ''XXXX-XXXX-7654''
   \<and> mask_aadhaar (PyStr ''12'') = ''XXXX-XXXX-  12''
   \<and> length (mask_aadhaar (PyStr ''7'')) = 14"
proof -
  have nd: "normalize_digits (PyStr ''abc'') = []"
    "normalize_digits (PyStr ''98-7654'') = ''987654''"
    "normalize_digits (PyStr ''12'') = ''12''"
    "normalize_digits (PyStr ''7'') = ''7''"
    by code_simp+
  show ?thesis
    using mask_aadhaar_format [of "PyStr ''abc''"] mask_aadhaar_format [of "PyStr ''98-7654''"]
      mask_aadhaar_format [of "PyStr ''12''"] mask_aadhaar_format [of "PyStr ''7''"]
    by (simp add: nd numeral_2_eq_2)
qed

section \<open>Claim C7: masking a phone number\<close>




section \<open>Claim C9: sequential runs of digits\<close>

lemma digit_val_range: "(0 \<le> digit_val c \<and> digit_val c \<le> 9) = ascii_digit c"
  by (auto simp: ascii_digit_def digit_val_def)

lemma suffix_run_pos: "acc \<noteq> [] \<Longrightarrow> 0 < suffix_run st acc"
  by (induction st acc rule: suffix_run.induct) auto

lemma suffix_run_le_length: "suffix_run st acc \<le> length acc"
  by (induction st acc rule: suffix_run.induct) auto

lemma seq_loop_step:
  assumes "2 \<le> m"
  shows "seq_loop m p (int (suffix_run 1 (p # earlier))) (int (suffix_run (- 1) (p # earlier)))
           (c # rest)
         = (if run_reached m (c # p # earlier) then True
            else seq_loop m c (int (suffix_run 1 (c # p # earlier)))
                   (int (suffix_run (- 1) (c # p # earlier))) rest)"
proof (cases "ascii_digit c \<and> ascii_digit p")
  case True
  then have "0 \<le> digit_val c \<and> digit_val c \<le> 9 \<and> 0 \<le> digit_val p \<and> digit_val p \<le> 9"
    by (simp add: digit_val_range)
  with True show ?thesis
    by (auto simp: run_reached_def Let_def add.commute)
next
  case False
  then have "\<not> (0 \<le> digit_val c \<and> digit_val c \<le> 9 \<and> 0 \<le> digit_val p \<and> digit_val p \<le> 9)"
    using digit_val_range [of c] digit_val_range [of p] by blast
  with False assms show ?thesis
    by (auto simp: run_reached_def Let_def)
qed

lemma seq_loop_reaches:
  assumes "acc \<noteq> []" "2 \<le> m"
  shows "seq_loop m (hd acc) (int (suffix_run 1 acc)) (int (suffix_run (- 1) acc)) rest
         = (\<exists>k. 0 < k \<and> k \<le> length rest \<and> run_reached m (rev (take k rest) @ acc))"
  using assms
proof (induction rest arbitrary: acc)
  case Nil
  show ?case by simp
next
  case (Cons c rest)
  from Cons.prems(1) obtain p earlier where acc: "acc = p # earlier" by (cases acc) auto
  let ?acc' = "c # acc"
  have shift: "(\<exists>k. 0 < k \<and> k \<le> length (c # rest) \<and> run_reached m (rev (take k (c # rest)) @ acc))
      = (run_reached m ?acc' \<or> (\<exists>k. 0 < k \<and> k \<le> length rest \<and> run_reached m (rev (take k rest) @ ?acc')))"
    (is "?L = ?R")
  proof
    assume ?L
    then obtain k where k: "0 < k" "k \<le> length (c # rest)"
      "run_reached m (rev (take k (c # rest)) @ acc)" by blast
    then obtain j where j: "k = Suc j" by (cases k) auto
    show ?R
    proof (cases j)
      case 0
      with k j show ?thesis by simp
    next
      case (Suc i)
      with k j have "0 < j \<and> j \<le> length rest \<and> run_reached m (rev (take j rest) @ ?acc')"
        by simp
      then show ?thesis by blast
    qed
  next
    assume ?R
    then show ?L
    proof
      assume "run_reached m ?acc'"
      then have "0 < Suc 0 \<and> Suc 0 \<le> length (c # rest)
          \<and> run_reached m (rev (take (Suc 0) (c # rest)) @ acc)" by simp
      then show ?L by blast
    next
      assume "\<exists>k. 0 < k \<and> k \<le> length rest \<and> run_reached m (rev (take k rest) @ ?acc')"
      then obtain k where "0 < k" "k \<le> length rest" "run_reached m (rev (take k rest) @ ?acc')"
        by blast
      then have "0 < Suc k \<and> Suc k \<le> length (c # rest)
          \<and> run_reached m (rev (take (Suc k) (c # rest)) @ acc)" by simp
      then show ?L by blast
    qed
  qed
  have IH: "seq_loop m c (int (suffix_run 1 ?acc')) (int (suffix_run (- 1) ?acc')) rest
      = (\<exists>k. 0 < k \<and> k \<le> length rest \<and> run_reached m (rev (take k rest) @ ?acc'))"
    using Cons.IH [of ?acc'] Cons.prems by simp
  have "seq_loop m (hd acc) (int (suffix_run 1 acc)) (int (suffix_run (- 1) acc)) (c # rest)
      = (if run_reached m ?acc' then True
         else seq_loop m c (int (suffix_run 1 ?acc')) (int (suffix_run (- 1) ?acc')) rest)"
    unfolding acc list.sel using Cons.prems(2) by (rule seq_loop_step)
  also have "\<dots> = (run_reached m ?acc' \<or>
      (\<exists>k. 0 < k \<and> k \<le> length rest \<and> run_reached m (rev (take k rest) @ ?acc')))"
    using IH by auto
  finally show ?case using shift by simp
qed

text \<open>From a reached run to a run of the specification, and back.\<close>

lemma suffix_run_successively:
  "successively (\<lambda>a b. digit_val a = digit_val b + st) (take (suffix_run st acc) acc)"
proof (induction st acc rule: suffix_run.induct)
  case (1 st)
  show ?case by simp
next
  case (2 st c)
  show ?case by simp
next
  case (3 st c p earlier)
  obtain k where k: "suffix_run st (p # earlier) = Suc k"
    using suffix_run_pos [of "p # earlier" st] by (cases "suffix_run st (p # earlier)") auto
  show ?case
  proof (cases "ascii_digit c \<and> ascii_digit p \<and> digit_val c = digit_val p + st")
    case True
    with "3.IH" k show ?thesis by simp
  next
    case False
    then show ?thesis by auto
  qed
qed

lemma suffix_run_decimal:
  "2 \<le> suffix_run st acc \<Longrightarrow> list_all ascii_digit (take (suffix_run st acc) acc)"
proof (induction st acc rule: suffix_run.induct)
  case (1 st)
  then show ?case by simp
next
  case (2 st c)
  then show ?case by simp
next
  case (3 st c p earlier)
  obtain k where k: "suffix_run st (p # earlier) = Suc k"
    using suffix_run_pos [of "p # earlier" st] by (cases "suffix_run st (p # earlier)") auto
  from "3.prems" have step: "ascii_digit c" "ascii_digit p" "digit_val c = digit_val p + st"
    by (auto split: if_splits)
  show ?case
  proof (cases k)
    case 0
    with k step show ?thesis by simp
  next
    case (Suc j)
    with k step "3.IH" show ?thesis by simp
  qed
qed

lemma suffix_run_maximal:
  "q \<noteq> [] \<Longrightarrow> list_all ascii_digit q
     \<Longrightarrow> successively (\<lambda>a b. digit_val a = digit_val b + st) q
     \<Longrightarrow> length q \<le> suffix_run st (q @ t)"
proof (induction st q rule: suffix_run.induct)
  case (1 st)
  then show ?case by simp
next
  case (2 st c)
  then show ?case using suffix_run_pos [of "c # t" st] by simp
next
  case (3 st c p earlier)
  then show ?case by simp
qed

lemma reached_iff_run:
  assumes "2 \<le> m"
  shows "(\<exists>n. 0 < n \<and> n \<le> length ds \<and> m \<le> int (suffix_run st (rev (take n ds))))
         = (\<exists>r. sublist r ds \<and> m \<le> int (length r) \<and> stepping st r)"
    (is "?L = ?R")
proof
  assume ?L
  then obtain n where n: "0 < n" "n \<le> length ds" "m \<le> int (suffix_run st (rev (take n ds)))"
    by blast
  let ?acc = "rev (take n ds)"
  let ?r = "rev (take (suffix_run st ?acc) ?acc)"
  have ne: "?acc \<noteq> []" using n by auto
  have len: "length ?r = suffix_run st ?acc"
    using suffix_run_le_length [of st ?acc] by simp
  have "suffix ?r (take n ds)"
    by (metis rev_rev_ident suffix_to_prefix take_is_prefix)
  then have sub: "sublist ?r ds"
    by (meson prefix_imp_sublist sublist_order.order.trans suffix_imp_sublist take_is_prefix)
  have two: "2 \<le> suffix_run st ?acc" using n(3) assms by linarith
  have dec: "list_all ascii_digit ?r"
    using suffix_run_decimal [OF two] by simp
  have succ: "successively (\<lambda>a b. digit_val b = digit_val a + st) ?r"
    using suffix_run_successively [of st ?acc] by simp
  have "?r \<noteq> []" using len suffix_run_pos [OF ne, of st] by auto
  with dec succ have "stepping st ?r" by (simp add: stepping_def)
  with sub len n(3) show ?R by auto
next
  assume ?R
  then obtain r where r: "sublist r ds" "m \<le> int (length r)" "stepping st r" by blast
  then obtain pre suf where ds: "ds = pre @ r @ suf" by (auto simp: sublist_def)
  let ?n = "length (pre @ r)"
  from r(3) have rne: "r \<noteq> []" and rdec: "list_all ascii_digit (rev r)"
    and succ: "successively (\<lambda>a b. digit_val a = digit_val b + st) (rev r)"
    by (simp_all add: stepping_def)
  have "take ?n ds = pre @ r" by (simp add: ds)
  then have "rev (take ?n ds) = rev r @ rev pre" by simp
  moreover have "length (rev r) \<le> suffix_run st (rev r @ rev pre)"
    using rne rdec succ by (intro suffix_run_maximal) simp_all
  ultimately have "m \<le> int (suffix_run st (rev (take ?n ds)))" using r(2) by simp
  moreover have "0 < ?n" "?n \<le> length ds" using rne by (simp_all add: ds)
  ultimately show ?L by blast
qed

lemma spec_has_run_iff:
  "spec_has_run s m
     = (\<exists>r. sublist r s \<and> m \<le> int (length r) \<and> (stepping 1 r \<or> stepping (- 1) r))"
  by (auto simp: spec_has_run_def list_ex_iff)

lemma has_sequential_run_digits_spec:
  assumes "2 \<le> m"
  shows "has_sequential_run_digits ds m = spec_has_run ds m"
proof (cases ds)
  case Nil
  then show ?thesis
    using assms by (auto simp: has_sequential_run_digits_def spec_has_run_iff)
next
  case (Cons c0 rest)
  have loop: "seq_loop m c0 1 1 rest
      = (\<exists>k. 0 < k \<and> k \<le> length rest \<and> run_reached m (rev (take k rest) @ [c0]))"
    using seq_loop_reaches [of "[c0]" m rest] assms by simp
  have pos: "(\<exists>k. 0 < k \<and> k \<le> length rest \<and> run_reached m (rev (take k rest) @ [c0]))
      = (\<exists>n. 0 < n \<and> n \<le> length ds \<and> run_reached m (rev (take n ds)))"
    (is "?A = ?B")
  proof
    assume ?A
    then obtain k where "0 < k" "k \<le> length rest" "run_reached m (rev (take k rest) @ [c0])"
      by blast
    then have "0 < Suc k \<and> Suc k \<le> length ds \<and> run_reached m (rev (take (Suc k) ds))"
      by (simp add: Cons)
    then show ?B by blast
  next
    assume ?B
    then obtain n where n: "0 < n" "n \<le> length ds" "run_reached m (rev (take n ds))" by blast
    then obtain k where k: "n = Suc k" by (cases n) auto
    have "k \<noteq> 0"
    proof
      assume "k = 0"
      with n(3) k Cons have "run_reached m [c0]" by simp
      with assms show False by (simp add: run_reached_def)
    qed
    with n k Cons have "0 < k \<and> k \<le> length rest \<and> run_reached m (rev (take k rest) @ [c0])"
      by simp
    then show ?A by blast
  qed
  have spec: "(\<exists>n. 0 < n \<and> n \<le> length ds \<and> run_reached m (rev (take n ds))) = spec_has_run ds m"
    using reached_iff_run [OF assms, of ds 1] reached_iff_run [OF assms, of ds "- 1"]
    unfolding spec_has_run_iff run_reached_def by blast
  show ?thesis
  proof (cases "int (length ds) < m")
    case True
    have "\<not> spec_has_run ds m"
    proof
      assume "spec_has_run ds m"
      then obtain r where "sublist r ds" "m \<le> int (length r)" by (auto simp: spec_has_run_iff)
      with True show False using sublist_length_le [of r ds] by simp
    qed
    with True show ?thesis by (simp add: has_sequential_run_digits_def)
  next
    case False
    then have "has_sequential_run_digits ds m = seq_loop m c0 1 1 rest"
      by (simp add: has_sequential_run_digits_def Cons)
    with loop pos spec show ?thesis by simp
  qed
qed

text \<open>
  Claim C9 as stated fails. In \<open>1a2b3\<close> the letters separate the digits, so no run of
  length 3 lies within the string, yet \<open>has_sequential_digits\<close> answers true: it deletes
  the letters before it looks for runs. And for \<open>min_run = 1\<close> the single digit \<open>5\<close> is
  a run of length 1, yet the answer is false.
\<close>

theorem sequential_digits_counterexample:
  "has_sequential_digits unicode_nd (code_points ''1a2b3'') 3
   \<and> \<not> spec_has_run (code_points ''1a2b3'') 3
   \<and> \<not> has_sequential_digits unicode_nd (code_points ''5'') 1
   \<and> spec_has_run (code_points ''5'') 1"
  by (simp add: code_points_def has_sequential_digits_def has_sequential_run_digits_def
      unicode_nd_def unicode_nd_ranges_def digit_val_def spec_has_run_def stepping_def
      ascii_digit_def)

text \<open>
  Claim C9, amended. For \<open>min_run \<ge> 2\<close> and whatever the class \<open>\d\<close> of decimal digits
  is, \<open>has_sequential_digits s min_run\<close> is true iff the string that remains of \<open>s\<close> after
  every character outside that class is deleted contains a run of the digits 0 to 9 with
  strictly ascending or strictly descending consecutive values (each step +1, or each
  step -1) of length at least \<open>min_run\<close>. A character outside the class is ignored and
  does not break a run; a decimal digit other than 0 to 9 is kept and does break a run,
  as every character other than 0 to 9 does in the helper \<open>_has_sequential_run_digits\<close>,
  which is true iff its argument itself contains such a run.
\<close>

theorem has_sequential_digits_ignores_nondigits:
  "2 \<le> m \<Longrightarrow>
     has_sequential_digits nd s m = spec_has_run (filter nd s) m
     \<and> has_sequential_run_digits s m = spec_has_run s m"
  unfolding has_sequential_digits_def Let_def
  by (simp add: has_sequential_run_digits_spec)

text \<open>
  On \<open>1a2b3\<close> the letters are deleted and the run 123 is found. In the second string the
  Devanagari digit three (U+0969) stands between 12 and 3: it is kept, breaks the run,
  and the answer is false.
\<close>

theorem has_sequential_digits_ignores_nondigits_witness:
  "(2::int) \<le> 3
   \<and> filter unicode_nd (code_points ''1a2b3'') = code_points ''123''
   \<and> has_sequential_digits unicode_nd (code_points ''1a2b3'') 3
   \<and> spec_has_run (code_points ''123'') 3
   \<and> \<not> has_sequential_run_digits (code_points ''1a2b3'') 3
   \<and> filter unicode_nd (code_points ''12'' @ [2409] @ code_points ''3'')
       = code_points ''12'' @ [2409] @ code_points ''3''
   \<and> \<not> spec_has_run (code_points ''12'' @ [2409] @ code_points ''3'') 3
   \<and> \<not> has_sequential_digits unicode_nd (code_points ''12'' @ [2409] @ code_points ''3'') 3"
proof -
  have f1: "filter unicode_nd (code_points ''1a2b3'') = code_points ''123''"
    by (simp add: code_points_def unicode_nd_def unicode_nd_ranges_def)
  have f2: "filter unicode_nd (code_points ''12'' @ [2409] @ code_points ''3'')
      = code_points ''12'' @ [2409] @ code_points ''3''"
    by (simp add: code_points_def unicode_nd_def unicode_nd_ranges_def)
  have a: "has_sequential_digits unicode_nd (code_points ''1a2b3'') 3"
    by (simp add: code_points_def has_sequential_digits_def has_sequential_run_digits_def
        unicode_nd_def unicode_nd_ranges_def digit_val_def)
  have b: "\<not> spec_has_run (code_points ''1a2b3'') 3"
    "\<not> spec_has_run (code_points ''12'' @ [2409] @ code_points ''3'') 3"
    by (simp_all add: code_points_def spec_has_run_def stepping_def ascii_digit_def digit_val_def)
  from has_sequential_digits_ignores_nondigits [of 3 unicode_nd "code_points ''1a2b3''"] a b f1
  have c: "spec_has_run (code_points ''123'') 3"
    "\<not> has_sequential_run_digits (code_points ''1a2b3'') 3"
    by simp_all
  from has_sequential_digits_ignores_nondigits
         [of 3 unicode_nd "code_points ''12'' @ [2409] @ code_points ''3''"] b f2
  have d: "\<not> has_sequential_digits unicode_nd (code_points ''12'' @ [2409] @ code_points ''3'') 3"
    by simp
  from a b c d f1 f2 show ?thesis by simp
qed

section \<open>The rows of a run in terms of the input\<close>

text \<open>
  In every row of a run the cleaned Aadhaar value is the digit string of the raw value
  (normalizing it twice changes nothing), and the canonical mobile number is the one the
  phone validator gives for the raw value and the row's region. In particular a row
  whose raw Aadhaar value holds no digit, such as a mobile-only row, has the empty
  Aadhaar key.
\<close>

lemma validate_single_aadhaar:
  "validate_single v = Inr out \<Longrightarrow> aadhaar out = normalize_digits v"
  by (auto simp: validate_single_def Let_def split: if_splits sum.splits)

lemma map_result_nth:
  "map_result f xs = Inr ys \<Longrightarrow> i < length xs \<Longrightarrow> f (xs ! i) = Inr (ys ! i)"
proof (induction xs arbitrary: ys i)
  case Nil
  then show ?case by simp
next
  case (Cons x xs)
  then show ?case by (cases i) (auto split: sum.splits)
qed

lemma validate_aadhaar_series_nth:
  assumes "validate_aadhaar_series series = Inr rows" "i < length series"
  shows "aadhaar (rows ! i) = normalize_digits (series ! i)"
proof -
  from assms have "validate_single (PyStr (normalize_digits (series ! i))) = Inr (rows ! i)"
    using map_result_nth [of "\<lambda>x. validate_single (PyStr x)" "map normalize_digits series" rows i]
    by (simp add: validate_aadhaar_series_def Let_def)
  then show ?thesis
    using validate_single_aadhaar normalize_digits_idempotent by fastforce
qed

lemma drop_duplicates_from_subset: "set (drop_duplicates_from key seen rs) \<subseteq> set rs"
  by (induction rs arbitrary: seen) auto

lemma apply_dedup_subset: "set (fst (apply_dedup mode work)) \<subseteq> set work"
  by (cases mode)
     (simp_all add: apply_dedup_def Let_def drop_duplicates_def drop_duplicates_from_subset)

lemma app_run_row_fields:
  assumes run: "app_run lib dr mode df = Inr (Some (rows, sm))" and mem: "(r, ov) \<in> set rows"
  shows "aadhaar_clean r = normalize_digits (w_aadhaar_raw r)
         \<and> mobile_e164 r
             = e164 (validate_single_phone lib (w_mobile_raw r) (py_or (lib_upper lib (w_country r)) dr))"
proof -
  let ?w0 = "filter keep_mask df"
  obtain a where a: "validate_aadhaar_series (map aadhaar_raw ?w0) = Inr a"
    using validate_aadhaar_series_total by blast
  have la: "length a = length ?w0" using validate_aadhaar_series_length [OF a] by simp
  let ?p = "validate_phone_series lib (map mobile_raw ?w0) (map country ?w0) dr"
  have lp: "length ?p = length ?w0" by (simp add: validate_phone_series_length)
  let ?w1 = "map (\<lambda>(r, a, pm). build_row r a pm) (zip ?w0 (zip a ?p))"
  from run a have "rows = map (\<lambda>r. (r, overall_valid_of r)) (fst (apply_dedup mode ?w1))"
    by (auto simp: app_run_def Let_def split: if_splits prod.splits)
  with mem have "r \<in> set (fst (apply_dedup mode ?w1))" by auto
  then have "r \<in> set ?w1" using apply_dedup_subset by blast
  then obtain i where i: "i < length ?w0" "r = build_row (?w0 ! i) (a ! i) (?p ! i)"
    using la lp by (auto simp: in_set_conv_nth)
  have pi: "fst (?p ! i)
      = validate_single_phone lib (mobile_raw (?w0 ! i)) (py_or (lib_upper lib (country (?w0 ! i))) dr)"
    using i(1) by (simp add: validate_phone_series_def Let_def)
  have ai: "aadhaar (a ! i) = normalize_digits (aadhaar_raw (?w0 ! i))"
    using validate_aadhaar_series_nth [OF a, of i] i(1) by simp
  show ?thesis using i(2) pi ai by (simp add: build_row_def)
qed

end
